theory Spec2Isabelle
  imports Main "HOL-Library.Word" "HOL-Library.Sublist" "HOL-Library.Multiset"
begin

section \<open>JavaScript values used by \<open>server.js\<close>\<close>

text \<open>
  A JavaScript string is a sequence of UTF-16 code units; \<open>length\<close> and \<open>slice\<close> count
  code units. An optional field of a JSON body or of a collaborator's answer is an
  \<open>option\<close>: \<open>None\<close> is \<open>undefined\<close>.
\<close>

type_synonym js_string = "16 word list"

definition js :: "string \<Rightarrow> js_string" where
  "js s = map of_char s"

text \<open>Truthiness of an optional string: \<open>undefined\<close> and \<open>""\<close> are falsy.\<close>

fun truthy :: "js_string option \<Rightarrow> bool" where
  "truthy None = False"
| "truthy (Some s) = (s \<noteq> [])"

text \<open>\<open>a || b\<close> on optional strings, and \<open>a || ""\<close>.\<close>

definition or_else :: "js_string option \<Rightarrow> js_string option \<Rightarrow> js_string option" where
  "or_else a b = (if truthy a then a else b)"

definition or_str :: "js_string option \<Rightarrow> js_string \<Rightarrow> js_string" where
  "or_str a d = (case a of None \<Rightarrow> d | Some s \<Rightarrow> if s = [] then d else s)"

text \<open>
  The characters matched by \<open>\s\<close> in a regular expression, which are also the ones
  \<open>trim\<close> removes: the ECMAScript WhiteSpace and LineTerminator code points.
\<close>

definition is_ws :: "16 word \<Rightarrow> bool" where
  "is_ws c = (c = 0x09 \<or> c = 0x0A \<or> c = 0x0B \<or> c = 0x0C \<or> c = 0x0D \<or> c = 0x20
     \<or> c = 0xA0 \<or> c = 0x1680 \<or> (0x2000 \<le> c \<and> c \<le> 0x200A) \<or> c = 0x2028 \<or> c = 0x2029
     \<or> c = 0x202F \<or> c = 0x205F \<or> c = 0x3000 \<or> c = 0xFEFF)"

text \<open>\<open>s.replace(/\s+/g, " ")\<close>: every maximal run of whitespace becomes one space.\<close>

function collapse_ws :: "js_string \<Rightarrow> js_string" where
  "collapse_ws [] = []"
| "collapse_ws (c # cs) =
     (if is_ws c then 0x20 # collapse_ws (dropWhile is_ws cs) else c # collapse_ws cs)"
  by pat_completeness auto
termination
  by (relation "measure length") (auto simp: less_Suc_eq_le length_dropWhile_le)

text \<open>\<open>s.trim()\<close>: whitespace removed at both ends.\<close>

definition js_trim :: "js_string \<Rightarrow> js_string" where
  "js_trim s = rev (dropWhile is_ws (rev (dropWhile is_ws s)))"

text \<open>
  \<open>xs.slice(0, n)\<close>: a negative \<open>n\<close> counts from the end, and the result is cut to the
  length of \<open>xs\<close>.
\<close>

definition js_slice0 :: "'a list \<Rightarrow> int \<Rightarrow> 'a list" where
  "js_slice0 xs n = (if n < 0 then take (nat (int (length xs) + n)) xs else take (nat n) xs)"

text \<open>\<open>xs.join(" ")\<close> on a list of strings.\<close>

fun js_join :: "js_string list \<Rightarrow> js_string" where
  "js_join [] = []"
| "js_join [x] = x"
| "js_join (x # y # ys) = x @ 0x20 # js_join (y # ys)"

text \<open>A run of whitespace: two adjacent whitespace code units.\<close>

fun ws_run :: "js_string \<Rightarrow> bool" where
  "ws_run (a # b # cs) = ((is_ws a \<and> is_ws b) \<or> ws_run (b # cs))"
| "ws_run _ = False"

text \<open>\<open>a || b\<close> on two strings, and \<open>a ?? d\<close> on an optional value.\<close>

definition str_or :: "js_string \<Rightarrow> js_string \<Rightarrow> js_string" where
  "str_or a b = (if a = [] then b else a)"

definition nullish :: "'a option \<Rightarrow> 'a \<Rightarrow> 'a" where
  "nullish a d = (case a of None \<Rightarrow> d | Some v \<Rightarrow> v)"

section \<open>UTF-8\<close>

text \<open>
  \<open>hash.update(string)\<close> hashes the UTF-8 encoding of the string. The encoder reads
  the code units as UTF-16: a high surrogate followed by a low surrogate is one code
  point beyond the basic plane, and every other surrogate is replaced by U+FFFD.
\<close>

definition is_high :: "16 word \<Rightarrow> bool" where
  "is_high c = (0xD800 \<le> c \<and> c \<le> 0xDBFF)"

definition is_low :: "16 word \<Rightarrow> bool" where
  "is_low c = (0xDC00 \<le> c \<and> c \<le> 0xDFFF)"

definition unit_point :: "16 word \<Rightarrow> nat" where
  "unit_point c = (if is_high c \<or> is_low c then 0xFFFD else unat c)"

definition pair_point :: "16 word \<Rightarrow> 16 word \<Rightarrow> nat" where
  "pair_point c d = 0x10000 + (unat c - 0xD800) * 0x400 + (unat d - 0xDC00)"

fun code_points :: "js_string \<Rightarrow> nat list" where
  "code_points [] = []"
| "code_points [c] = [unit_point c]"
| "code_points (c # d # cs) =
     (if is_high c \<and> is_low d then pair_point c d # code_points cs
      else unit_point c # code_points (d # cs))"

definition utf8_bytes :: "nat \<Rightarrow> nat list" where
  "utf8_bytes cp =
     (if cp < 0x80 then [cp]
      else if cp < 0x800 then [0xC0 + cp div 0x40, 0x80 + cp mod 0x40]
      else if cp < 0x10000
        then [0xE0 + cp div 0x1000, 0x80 + cp div 0x40 mod 0x40, 0x80 + cp mod 0x40]
      else [0xF0 + cp div 0x40000, 0x80 + cp div 0x1000 mod 0x40, 0x80 + cp div 0x40 mod 0x40,
            0x80 + cp mod 0x40])"

definition utf8 :: "js_string \<Rightarrow> 8 word list" where
  "utf8 s = map of_nat (concat (map utf8_bytes (code_points s)))"

text \<open>A string without unpaired surrogates.\<close>

fun well_formed :: "js_string \<Rightarrow> bool" where
  "well_formed [] = True"
| "well_formed [c] = (\<not> is_high c \<and> \<not> is_low c)"
| "well_formed (c # d # cs) =
     (if is_high c \<and> is_low d then well_formed cs
      else \<not> is_high c \<and> \<not> is_low c \<and> well_formed (d # cs))"

text \<open>
  The way back, by which the encodings are shown to lose nothing: the code units of a
  code point, and the first code point of a sequence of bytes with the bytes after it.
\<close>

definition utf16_units :: "nat \<Rightarrow> js_string" where
  "utf16_units cp =
     (if cp < 0x10000 then [of_nat cp]
      else [of_nat (0xD800 + (cp - 0x10000) div 0x400), of_nat (0xDC00 + (cp - 0x10000) mod 0x400)])"

definition utf8_decode_first :: "nat list \<Rightarrow> nat \<times> nat list" where
  "utf8_decode_first bs =
     (case bs of
        [] \<Rightarrow> (0, [])
      | b0 # r0 \<Rightarrow>
          if b0 < 0x80 then (b0, r0)
          else (case r0 of
            [] \<Rightarrow> (0, [])
          | b1 # r1 \<Rightarrow>
              if b0 < 0xE0 then ((b0 - 0xC0) * 0x40 + (b1 - 0x80), r1)
              else (case r1 of
                [] \<Rightarrow> (0, [])
              | b2 # r2 \<Rightarrow>
                  if b0 < 0xF0
                  then ((b0 - 0xE0) * 0x1000 + (b1 - 0x80) * 0x40 + (b2 - 0x80), r2)
                  else (case r2 of
                    [] \<Rightarrow> (0, [])
                  | b3 # r3 \<Rightarrow>
                      ((b0 - 0xF0) * 0x40000 + (b1 - 0x80) * 0x1000 + (b2 - 0x80) * 0x40
                         + (b3 - 0x80), r3)))))"

section \<open>Host configuration\<close>

record overrides =
  ov_imapPort :: "int option"
  ov_imapSecure :: "bool option"
  ov_smtpHost :: "js_string option"
  ov_smtpPort :: "int option"
  ov_smtpSecure :: "bool option"

record config =
  imapHost :: js_string
  imapPort :: int
  imapSecure :: bool
  smtpHost :: js_string
  smtpPort :: int
  smtpSecure :: bool

definition primary_host :: js_string where
  "primary_host = js ''mail.privateemail.com''"

definition secondary_host :: js_string where
  "secondary_host = js ''smtp.privateemail.com''"

definition cfg :: "overrides \<Rightarrow> config" where
  "cfg ov =
     \<lparr>imapHost = js ''mail.privateemail.com'',
      imapPort = nullish (ov_imapPort ov) 993,
      imapSecure = nullish (ov_imapSecure ov) True,
      smtpHost = nullish (ov_smtpHost ov) (js ''mail.privateemail.com''),
      smtpPort = nullish (ov_smtpPort ov) 465,
      smtpSecure = nullish (ov_smtpSecure ov) True\<rparr>"

text \<open>\<open>advanced || {}\<close>: a request without \<open>advanced\<close> overrides nothing.\<close>

definition adv_or_empty :: "overrides option \<Rightarrow> overrides" where
  "adv_or_empty adv =
     nullish adv \<lparr>ov_imapPort = None, ov_imapSecure = None, ov_smtpHost = None,
                  ov_smtpPort = None, ov_smtpSecure = None\<rparr>"

section \<open>Collaborators\<close>

text \<open>
  The mail-protocol session (imapflow), the MIME parser (mailparser), the mail-transfer
  client (nodemailer) and the digest (crypto) are not part of \<open>server.js\<close>. Their answers
  are parameters of the model: a failure (a thrown error, reduced to its message) is the
  \<open>Some\<close> of an \<open>option\<close> or the \<open>Inl\<close> of a sum.
\<close>

record imap_params =
  ip_host :: js_string
  ip_port :: int
  ip_secure :: bool
  ip_user :: js_string
  ip_pass :: js_string

record smtp_params =
  sp_host :: js_string
  sp_port :: int
  sp_secure :: bool
  sp_user :: js_string
  sp_pass :: js_string

datatype criteria =
  UidFrom nat  \<comment> \<open>\<open>{ uid: "n:*" }\<close>\<close>
| Since int    \<comment> \<open>\<open>{ since }\<close>, a time in milliseconds\<close>
| SinceInvalid \<comment> \<open>\<open>{ since }\<close> with an Invalid Date\<close>

record envelope =
  env_subject :: "js_string option"
  env_from :: "js_string option list option"  \<comment> \<open>the \<open>address\<close> of each entry of \<open>from\<close>\<close>

record fetched =
  f_uid :: nat
  f_envelope :: "envelope option"
  f_flags :: "js_string list option"
  f_source :: "8 word list"

datatype refs = NoRefs | OneRef js_string | ManyRefs "js_string list"

record parsed =
  p_subject :: "js_string option"
  p_from :: "js_string option list option"  \<comment> \<open>the \<open>address\<close> of each entry of \<open>from.value\<close>\<close>
  p_text :: "js_string option"
  p_html :: "js_string option"
  p_date :: "int option"
  p_messageId :: "js_string option"
  p_inReplyTo :: "js_string option"
  p_references :: refs

record mail =
  m_from :: js_string
  m_to :: js_string
  m_cc :: "js_string option"
  m_subject :: js_string
  m_text :: "js_string option"
  m_html :: "js_string option"
  m_headers :: "(js_string \<times> js_string) list"

record collab =
  imap_connect :: "imap_params \<Rightarrow> js_string option"
  imap_lock :: "js_string option"
  imap_search :: "criteria \<Rightarrow> js_string + nat list"
  imap_fetch :: "nat list \<Rightarrow> js_string + fetched list"
  mime_parse :: "8 word list \<Rightarrow> js_string + parsed"
  sha256_hex :: "8 word list \<Rightarrow> js_string"
  smtp_verify :: "smtp_params \<Rightarrow> js_string option"
  smtp_send :: "smtp_params \<Rightarrow> mail \<Rightarrow> js_string + js_string"

text \<open>What a handler asks of the network, in the order it asks.\<close>

datatype event =
  ImapConnect imap_params
| ImapLock
| ImapUnlock
| ImapSearch criteria
| ImapFetch "nat list"
| ImapLogout
| SmtpVerify smtp_params
| SmtpSend smtp_params mail

section \<open>Responses\<close>

record message =
  externalThreadKey :: js_string
  messageId :: js_string
  inReplyTo :: js_string
  references :: "js_string list"
  subject :: js_string
  fromEmail :: js_string
  date :: int  \<comment> \<open>the instant that \<open>toISOString\<close> renders\<close>
  flags :: "js_string list"
  snippet :: js_string
  bodyText :: js_string
  bodyHtml :: js_string

record imap_result =
  ir_ok :: bool
  ir_error :: "js_string option"

record smtp_result =
  sr_ok :: bool
  sr_error :: "js_string option"
  sr_smtpHost :: js_string

datatype body =
  ErrorBody js_string                      \<comment> \<open>\<open>{ ok: false, error }\<close>\<close>
| TestBody bool imap_result smtp_result    \<comment> \<open>\<open>{ ok, imap, smtp }\<close>\<close>
| SyncBody nat "message list"              \<comment> \<open>\<open>{ ok: true, cursor, messages }\<close>\<close>
| SendBody js_string js_string             \<comment> \<open>\<open>{ ok: true, messageId, usedHost }\<close>\<close>

type_synonym response = "nat \<times> body"  \<comment> \<open>HTTP status and JSON body\<close>

section \<open>Credential verification: \<open>testImap\<close>, \<open>testSmtp\<close>, \<open>POST /test\<close>\<close>

record test_req =
  tq_email :: "js_string option"
  tq_password :: "js_string option"
  tq_advanced :: "overrides option"

definition testImap :: "collab \<Rightarrow> js_string \<Rightarrow> js_string \<Rightarrow> overrides option
    \<Rightarrow> imap_result \<times> event list" where
  "testImap w email password advanced =
     (let c = cfg (adv_or_empty advanced);
          p = \<lparr>ip_host = imapHost c, ip_port = imapPort c, ip_secure = imapSecure c,
               ip_user = email, ip_pass = password\<rparr>
      in case imap_connect w p of
           Some e \<Rightarrow> (\<lparr>ir_ok = False, ir_error = Some e\<rparr>, [ImapConnect p, ImapLogout])
         | None \<Rightarrow>
             (case imap_lock w of
                Some e \<Rightarrow>
                  (\<lparr>ir_ok = False, ir_error = Some e\<rparr>, [ImapConnect p, ImapLock, ImapLogout])
              | None \<Rightarrow>
                  (\<lparr>ir_ok = True, ir_error = None\<rparr>,
                   [ImapConnect p, ImapLock, ImapUnlock, ImapLogout])))"

text \<open>
  \<open>testSmtp\<close> spreads \<open>advanced\<close> and then sets \<open>smtpHost\<close> to \<open>smtpHostOverride ?? undefined\<close>:
  the \<open>smtpHost\<close> of \<open>advanced\<close> is replaced before \<open>cfg\<close> reads it.
\<close>

definition testSmtp :: "collab \<Rightarrow> js_string \<Rightarrow> js_string \<Rightarrow> overrides option
    \<Rightarrow> js_string option \<Rightarrow> smtp_result \<times> event list" where
  "testSmtp w email password advanced smtpHostOverride =
     (let c = cfg ((adv_or_empty advanced)\<lparr>ov_smtpHost := smtpHostOverride\<rparr>);
          p = \<lparr>sp_host = smtpHost c, sp_port = smtpPort c, sp_secure = smtpSecure c,
               sp_user = email, sp_pass = password\<rparr>
      in case smtp_verify w p of
           None \<Rightarrow> (\<lparr>sr_ok = True, sr_error = None, sr_smtpHost = smtpHost c\<rparr>, [SmtpVerify p])
         | Some e \<Rightarrow>
             (\<lparr>sr_ok = False, sr_error = Some e, sr_smtpHost = smtpHost c\<rparr>, [SmtpVerify p]))"

definition test_handler :: "collab \<Rightarrow> test_req \<Rightarrow> response \<times> event list" where
  "test_handler w req =
     (if \<not> truthy (tq_email req) \<or> \<not> truthy (tq_password req)
      then ((400, ErrorBody (js ''Missing email/password'')), [])
      else
        let email = or_str (tq_email req) [];
            password = or_str (tq_password req) [];
            advanced = tq_advanced req;
            (imap, t1) = testImap w email password advanced;
            (smtp, t2) = testSmtp w email password advanced None
        in if \<not> sr_ok smtp
           then
             let (fallback, t3) =
                   testSmtp w email password advanced (Some (js ''smtp.privateemail.com''));
                 smtp' = (if sr_ok fallback then fallback else smtp)
             in ((200, TestBody (ir_ok imap \<and> sr_ok smtp') imap smtp'), t1 @ t2 @ t3)
           else ((200, TestBody (ir_ok imap \<and> sr_ok smtp) imap smtp), t1 @ t2))"

section \<open>Synchronisation: \<open>POST /sync\<close>\<close>

record sync_req =
  sq_email :: "js_string option"
  sq_password :: "js_string option"
  sq_cursor :: "nat option"
  sq_backfillDays :: "int option"
  sq_limit :: "int option"
  sq_advanced :: "overrides option"

text \<open>
  The fields have the types of the data model: \<open>cursor\<close> is a non-negative integer that
  a JSON number holds exactly, \<open>backfillDays\<close> and \<open>limit\<close> are integers.

  \<open>if (cursor)\<close>: a cursor that is absent or \<open>0\<close> is falsy.
\<close>

fun cursor_truthy :: "nat option \<Rightarrow> bool" where
  "cursor_truthy None = False"
| "cursor_truthy (Some n) = (n \<noteq> 0)"

text \<open>\<open>Number(cursor)\<close>, which the handler evaluates for a truthy cursor only.\<close>

definition cursor_number :: "nat option \<Rightarrow> nat" where
  "cursor_number c = nullish c 0"

text \<open>
  \<open>Number(cursor) + 1\<close> is an addition of doubles: exact below \<open>2^53\<close>, rounded to
  the nearest double, ties to even, above. From \<open>2^53\<close> to \<open>2^54\<close> the doubles are the
  even numbers; beyond, the sum rounds back to the cursor.
\<close>

definition js_plus1 :: "nat \<Rightarrow> nat" where
  "js_plus1 c =
     (if c < 2 ^ 53 then c + 1
      else if c < 2 ^ 54 then (if even (c div 2) then c else c + 2)
      else c)"

text \<open>
  \<open>new Date(Date.now() - backfillDays * 24 * 60 * 60 * 1000)\<close>: a time value beyond
  8.64e15 milliseconds either way is an Invalid Date. The product is computed with
  integers: doubles round it only from \<open>2^53\<close> on, where the difference is outside
  the range of \<open>Date\<close> for any clock before the year 13000.
\<close>

definition since_date :: "int \<Rightarrow> int \<Rightarrow> criteria" where
  "since_date now days =
     (let t = now - days * 24 * 60 * 60 * 1000
      in if \<bar>t\<bar> \<le> 8640000000000000 then Since t else SinceInvalid)"

text \<open>
  Lines 117 to 122: the search the handler issues. \<open>UidFrom n\<close> stands for the range
  \<open>"n:*"\<close> with \<open>n\<close> in decimal digits, as numbers below \<open>10^21\<close> are printed.
\<close>

definition sync_criteria :: "int \<Rightarrow> sync_req \<Rightarrow> criteria" where
  "sync_criteria now req =
     (if cursor_truthy (sq_cursor req) then UidFrom (js_plus1 (cursor_number (sq_cursor req)))
      else since_date now (nullish (sq_backfillDays req) 14))"

text \<open>
  Lines 124 to 126: sort descending, \<open>slice(0, Number(limit))\<close>, sort ascending. The
  comparators order numbers, so equal elements are interchangeable and the descending
  sort is the reverse of the ascending one.
\<close>

definition select_uids :: "nat list \<Rightarrow> int \<Rightarrow> nat list" where
  "select_uids uids limit = sort (js_slice0 (rev (sort uids)) limit)"

text \<open>Line 129: \<open>cursor ? Number(cursor) : 0\<close>.\<close>

definition init_max :: "nat option \<Rightarrow> nat" where
  "init_max c = (if cursor_truthy c then cursor_number c else 0)"

fun first_address :: "js_string option list option \<Rightarrow> js_string option" where
  "first_address None = None"
| "first_address (Some []) = None"
| "first_address (Some (a # _)) = a"

fun refs_list :: "refs \<Rightarrow> js_string list" where
  "refs_list (ManyRefs rs) = rs"
| "refs_list (OneRef r) = (if r = [] then [] else [r])"
| "refs_list NoRefs = []"

text \<open>Lines 149 to 152: the string that is hashed, and the key.\<close>

definition thread_key_input :: "js_string list \<Rightarrow> js_string \<Rightarrow> js_string \<Rightarrow> js_string
    \<Rightarrow> js_string \<Rightarrow> js_string" where
  "thread_key_input refs irt mid subj frm =
     str_or (js_join refs) (str_or irt (str_or mid subj)) @ js ''|'' @ frm"

definition threadKey :: "(8 word list \<Rightarrow> js_string) \<Rightarrow> js_string list \<Rightarrow> js_string
    \<Rightarrow> js_string \<Rightarrow> js_string \<Rightarrow> js_string \<Rightarrow> js_string" where
  "threadKey sha refs irt mid subj frm = sha (utf8 (thread_key_input refs irt mid subj frm))"

text \<open>Lines 135 to 166: the message built from one fetched item and its parsed source.\<close>

definition normalize :: "(8 word list \<Rightarrow> js_string) \<Rightarrow> int \<Rightarrow> fetched \<Rightarrow> parsed \<Rightarrow> message" where
  "normalize sha now msg p =
     (let subj = or_str (or_else (p_subject p) (Option.bind (f_envelope msg) env_subject))
                   (js ''(no subject)'');
          frm = or_str (or_else (first_address (p_from p))
                   (first_address (Option.bind (f_envelope msg) env_from))) [];
          snip = js_slice0 (js_trim (collapse_ws (or_str (p_text p) (str_or subj [])))) 240;
          text = js_slice0 (or_str (p_text p) []) 20000;
          html = js_slice0 (or_str (p_html p) []) 20000;
          mid = or_str (p_messageId p) [];
          irt = or_str (p_inReplyTo p) [];
          rfs = refs_list (p_references p)
      in \<lparr>externalThreadKey = threadKey sha rfs irt mid subj frm,
          messageId = mid,
          inReplyTo = irt,
          references = rfs,
          subject = subj,
          fromEmail = frm,
          date = nullish (p_date p) now,
          flags = nullish (f_flags msg) [],
          snippet = snip,
          bodyText = text,
          bodyHtml = html\<rparr>)"

text \<open>
  Lines 131 to 167: the loop over the fetched items, with \<open>maxUid\<close> and \<open>messages\<close> as
  accumulators. A parse that throws ends the loop with the error.
\<close>

fun sync_loop :: "collab \<Rightarrow> int \<Rightarrow> fetched list \<Rightarrow> nat \<Rightarrow> message list
    \<Rightarrow> js_string + nat \<times> message list" where
  "sync_loop w now [] maxUid messages = Inr (maxUid, messages)"
| "sync_loop w now (msg # rest) maxUid messages =
     (case mime_parse w (f_source msg) of
        Inl e \<Rightarrow> Inl e
      | Inr p \<Rightarrow>
          sync_loop w now rest (max maxUid (f_uid msg))
            (messages @ [normalize (sha256_hex w) now msg p]))"

text \<open>
  Lines 116 to 169, inside the lock. The fetch is a stream that may throw at any item;
  whatever was read before is dropped with the error, so the stream is one answer here.
\<close>

definition sync_locked :: "collab \<Rightarrow> int \<Rightarrow> sync_req
    \<Rightarrow> (js_string + nat \<times> message list) \<times> event list" where
  "sync_locked w now req =
     (let crit = sync_criteria now req
      in case imap_search w crit of
           Inl e \<Rightarrow> (Inl e, [ImapSearch crit])
         | Inr found \<Rightarrow>
             (let uids = select_uids found (nullish (sq_limit req) 50)
              in case imap_fetch w uids of
                   Inl e \<Rightarrow> (Inl e, [ImapSearch crit, ImapFetch uids])
                 | Inr items \<Rightarrow>
                     (sync_loop w now items (init_max (sq_cursor req)) [],
                      [ImapSearch crit, ImapFetch uids])))"

definition sync_handler :: "collab \<Rightarrow> int \<Rightarrow> sync_req \<Rightarrow> response \<times> event list" where
  "sync_handler w now req =
     (if \<not> truthy (sq_email req) \<or> \<not> truthy (sq_password req)
      then ((400, ErrorBody (js ''Missing email/password'')), [])
      else
        let c = cfg (adv_or_empty (sq_advanced req));
            p = \<lparr>ip_host = imapHost c, ip_port = imapPort c, ip_secure = imapSecure c,
                 ip_user = or_str (sq_email req) [], ip_pass = or_str (sq_password req) []\<rparr>
        in case imap_connect w p of
             Some e \<Rightarrow> ((500, ErrorBody e), [ImapConnect p, ImapLogout])
           | None \<Rightarrow>
               (case imap_lock w of
                  Some e \<Rightarrow> ((500, ErrorBody e), [ImapConnect p, ImapLock, ImapLogout])
                | None \<Rightarrow>
                    (case sync_locked w now req of
                       (Inl e, t) \<Rightarrow>
                         ((500, ErrorBody e),
                          [ImapConnect p, ImapLock] @ t @ [ImapUnlock, ImapLogout])
                     | (Inr (maxUid, messages), t) \<Rightarrow>
                         ((200, SyncBody maxUid messages),
                          [ImapConnect p, ImapLock] @ t @ [ImapUnlock, ImapLogout]))))"

section \<open>Sending: \<open>POST /send\<close>\<close>

record send_req =
  nq_fromEmail :: "js_string option"
  nq_password :: "js_string option"
  nq_to :: "js_string option"
  nq_cc :: "js_string option"
  nq_subject :: "js_string option"
  nq_bodyText :: "js_string option"
  nq_bodyHtml :: "js_string option"
  nq_headers :: "(js_string \<times> js_string) list option"
  nq_advanced :: "overrides option"

definition send_mail :: "send_req \<Rightarrow> mail" where
  "send_mail req =
     \<lparr>m_from = or_str (nq_fromEmail req) [],
      m_to = or_str (nq_to req) [],
      m_cc = nq_cc req,
      m_subject = or_str (nq_subject req) [],
      m_text = nq_bodyText req,
      m_html = nq_bodyHtml req,
      m_headers = nullish (nq_headers req) []\<rparr>"

definition send_params :: "send_req \<Rightarrow> js_string \<Rightarrow> smtp_params" where
  "send_params req host =
     (let c = cfg ((adv_or_empty (nq_advanced req))\<lparr>ov_smtpHost := Some host\<rparr>)
      in \<lparr>sp_host = smtpHost c, sp_port = smtpPort c, sp_secure = smtpSecure c,
          sp_user = or_str (nq_fromEmail req) [], sp_pass = or_str (nq_password req) []\<rparr>)"

text \<open>\<open>trySend\<close>: the answer is \<open>{ ok: true, messageId, usedHost }\<close>, or the error thrown.\<close>

definition trySend :: "collab \<Rightarrow> send_req \<Rightarrow> js_string \<Rightarrow> (js_string + body) \<times> event list" where
  "trySend w req host =
     (let p = send_params req host
      in case smtp_send w p (send_mail req) of
           Inl e \<Rightarrow> (Inl e, [SmtpSend p (send_mail req)])
         | Inr mid \<Rightarrow> (Inr (SendBody mid (sp_host p)), [SmtpSend p (send_mail req)]))"

definition send_handler :: "collab \<Rightarrow> send_req \<Rightarrow> response \<times> event list" where
  "send_handler w req =
     (if \<not> truthy (nq_fromEmail req) \<or> \<not> truthy (nq_password req) \<or> \<not> truthy (nq_to req)
         \<or> \<not> truthy (nq_subject req)
         \<or> (\<not> truthy (nq_bodyText req) \<and> \<not> truthy (nq_bodyHtml req))
      then ((400, ErrorBody (js ''Missing required fields'')), [])
      else
        case trySend w req (js ''mail.privateemail.com'') of
          (Inr b, t1) \<Rightarrow> ((200, b), t1)
        | (Inl _, t1) \<Rightarrow>
            (case trySend w req (js ''smtp.privateemail.com'') of
               (Inr b, t2) \<Rightarrow> ((200, b), t1 @ t2)
             | (Inl e, t2) \<Rightarrow> ((500, ErrorBody e), t1 @ t2)))"

section \<open>Observations on a run\<close>

text \<open>
  A message of the answer is the normalisation of a fetched item whose source parsed.
\<close>

definition produced :: "collab \<Rightarrow> int \<Rightarrow> fetched \<Rightarrow> message \<Rightarrow> bool" where
  "produced w now item m =
     (case mime_parse w (f_source item) of
        Inl _ \<Rightarrow> False
      | Inr p \<Rightarrow> m = normalize (sha256_hex w) now item p)"

text \<open>The hosts of the outbound attempts of a trace, and its searches, in order.\<close>

fun smtp_hosts :: "event list \<Rightarrow> js_string list" where
  "smtp_hosts [] = []"
| "smtp_hosts (SmtpVerify p # es) = sp_host p # smtp_hosts es"
| "smtp_hosts (SmtpSend p m # es) = sp_host p # smtp_hosts es"
| "smtp_hosts (e # es) = smtp_hosts es"

fun searches :: "event list \<Rightarrow> criteria list" where
  "searches [] = []"
| "searches (ImapSearch c # es) = c # searches es"
| "searches (e # es) = searches es"

text \<open>The \<open>smtp\<close> field of the answer of \<open>POST /test\<close>.\<close>

fun reported_smtp :: "response \<Rightarrow> smtp_result option" where
  "reported_smtp (s, TestBody ok imap smtp) = Some smtp"
| "reported_smtp (s, b) = None"

text \<open>A send attempt that the host accepted.\<close>

fun accepted :: "collab \<Rightarrow> event \<Rightarrow> bool" where
  "accepted w (SmtpSend p m) = (case smtp_send w p m of Inl e \<Rightarrow> False | Inr mid \<Rightarrow> True)"
| "accepted w e = False"

text \<open>A sync answer with its cursor raised to at least \<open>c\<close>, and a trace without its searches.\<close>

fun raise_cursor :: "nat \<Rightarrow> response \<Rightarrow> response" where
  "raise_cursor c (s, SyncBody cur msgs) = (s, SyncBody (max c cur) msgs)"
| "raise_cursor c (s, b) = (s, b)"

fun no_search :: "event list \<Rightarrow> event list" where
  "no_search [] = []"
| "no_search (ImapSearch c # es) = no_search es"
| "no_search (e # es) = e # no_search es"

text \<open>Two different inputs with the same digest.\<close>

definition digest_collision :: "(8 word list \<Rightarrow> js_string) \<Rightarrow> 8 word list \<Rightarrow> 8 word list \<Rightarrow> bool" where
  "digest_collision sha a b = (a \<noteq> b \<and> sha a = sha b)"

text \<open>A body that passes the check of line 182.\<close>

definition send_valid :: "send_req \<Rightarrow> bool" where
  "send_valid req =
     (truthy (nq_fromEmail req) \<and> truthy (nq_password req) \<and> truthy (nq_to req)
      \<and> truthy (nq_subject req) \<and> (truthy (nq_bodyText req) \<or> truthy (nq_bodyHtml req)))"

section \<open>What the handlers expect of the mail-protocol session\<close>

text \<open>
  \<open>server.js\<close> sorts and cuts the identifiers that \<open>search\<close> returns and reads \<open>msg.uid\<close>
  from what \<open>fetch\<close> yields. The function \<open>u\<close> gives the UID of the message an identifier
  stands for: the identity when the session hands out UIDs, the sequence-number-to-UID
  map otherwise; UIDs grow with the identifiers. The contracts below are stated of the
  session, not derived from \<open>server.js\<close>.

  \<^item> \<open>fetch_in_order\<close>: the items come in the order of the request, each for a
    requested identifier (some may be missing).
  \<^item> \<open>fetch_all\<close>: exactly one item for each requested identifier, in order.

  Nothing is assumed of \<open>search\<close>: a range \<open>"n:*"\<close> reaches, by RFC 3501, from \<open>n\<close> to the
  largest UID of the mailbox in either order, so it holds the last message even when
  its UID is below \<open>n\<close>.
\<close>

definition fetch_in_order :: "(nat \<Rightarrow> nat) \<Rightarrow> collab \<Rightarrow> bool" where
  "fetch_in_order u w =
     (\<forall>uids items. imap_fetch w uids = Inr items \<longrightarrow> subseq (map f_uid items) (map u uids))"

definition fetch_all :: "(nat \<Rightarrow> nat) \<Rightarrow> collab \<Rightarrow> bool" where
  "fetch_all u w =
     (\<forall>uids items. imap_fetch w uids = Inr items \<longrightarrow> map f_uid items = map u uids)"

section \<open>Sample collaborators and requests\<close>

definition demo_item :: "nat \<Rightarrow> fetched" where
  "demo_item i = \<lparr>f_uid = i, f_envelope = None, f_flags = None, f_source = []\<rparr>"

definition demo_parsed :: parsed where
  "demo_parsed =
     \<lparr>p_subject = Some (js ''Hi''), p_from = Some [Some (js ''a@b.c'')],
      p_text = Some (js ''a  b''), p_html = None, p_date = None, p_messageId = None,
      p_inReplyTo = None, p_references = NoRefs\<rparr>"

text \<open>A stand-in for the digest in the samples: the bytes themselves.\<close>

definition demo_digest :: "8 word list \<Rightarrow> js_string" where
  "demo_digest bs = map ucast bs"

text \<open>
  A session over a mailbox given as the list of its UIDs, where every host answers. Its
  search returns the UIDs from \<open>lo\<close> upward and nothing else.
\<close>

definition mailbox_collab :: "nat list \<Rightarrow> collab" where
  "mailbox_collab box =
     \<lparr>imap_connect = (\<lambda>p. None),
      imap_lock = None,
      imap_search = (\<lambda>c. case c of UidFrom lo \<Rightarrow> Inr (filter (\<lambda>i. lo \<le> i) box)
                             | Since t \<Rightarrow> Inr box
                             | SinceInvalid \<Rightarrow> Inl (js ''Invalid Date'')),
      imap_fetch = (\<lambda>uids. Inr (map demo_item uids)),
      mime_parse = (\<lambda>src. Inr demo_parsed),
      sha256_hex = demo_digest,
      smtp_verify = (\<lambda>p. None),
      smtp_send = (\<lambda>p m. Inr (js ''id''))\<rparr>"

definition demo_collab :: collab where
  "demo_collab = mailbox_collab [3, 1, 2]"

text \<open>
  The same session with the search of RFC 3501: the range \<open>"lo:*"\<close> holds the UIDs
  between \<open>lo\<close> and the largest UID of the mailbox, whichever of the two is larger.
\<close>

definition rfc_collab :: "nat list \<Rightarrow> collab" where
  "rfc_collab box =
     (mailbox_collab box)\<lparr>imap_search :=
       (\<lambda>c. case c of
              UidFrom lo \<Rightarrow>
                Inr (filter (\<lambda>i. min lo (fold max box 0) \<le> i \<and> i \<le> max lo (fold max box 0)) box)
            | Since t \<Rightarrow> Inr box
            | SinceInvalid \<Rightarrow> Inl (js ''Invalid Date''))\<rparr>"

text \<open>Both delivery hosts refuse the handshake, each with its own message.\<close>

definition down_collab :: collab where
  "down_collab =
     demo_collab\<lparr>smtp_verify :=
       (\<lambda>p. if sp_host p = js ''mail.privateemail.com'' then Some (js ''primary down'')
            else Some (js ''secondary down''))\<rparr>"

text \<open>The primary delivery host refuses a message that the secondary one accepts.\<close>

definition primary_down_collab :: collab where
  "primary_down_collab =
     demo_collab\<lparr>smtp_send :=
       (\<lambda>p m. if sp_host p = js ''mail.privateemail.com'' then Inl (js ''primary down'')
              else Inr (js ''id''))\<rparr>"

definition demo_req :: sync_req where
  "demo_req =
     \<lparr>sq_email = Some (js ''u@b.c''), sq_password = Some (js ''pw''), sq_cursor = None,
      sq_backfillDays = None, sq_limit = None, sq_advanced = None\<rparr>"

definition demo_test_req :: test_req where
  "demo_test_req =
     \<lparr>tq_email = Some (js ''u@b.c''), tq_password = Some (js ''pw''), tq_advanced = None\<rparr>"

definition demo_overrides :: overrides where
  "demo_overrides =
     \<lparr>ov_imapPort = None, ov_imapSecure = None, ov_smtpHost = None, ov_smtpPort = Some 587,
      ov_smtpSecure = None\<rparr>"

definition demo_send_req :: send_req where
  "demo_send_req =
     \<lparr>nq_fromEmail = Some (js ''u@b.c''), nq_password = Some (js ''pw''),
      nq_to = Some (js ''v@b.c''), nq_cc = None, nq_subject = Some (js ''Hi''),
      nq_bodyText = Some (js ''text''), nq_bodyHtml = None, nq_headers = None,
      nq_advanced = Some (demo_overrides\<lparr>ov_smtpHost := Some (js ''relay.example'')\<rparr>)\<rparr>"

definition demo_message :: "nat \<Rightarrow> message" where
  "demo_message i = normalize demo_digest 0 (demo_item i) demo_parsed"

section \<open>Strings\<close>

lemma ws_run_Cons: "ws_run (c # xs) = ((is_ws c \<and> xs \<noteq> [] \<and> is_ws (hd xs)) \<or> ws_run xs)"
  by (cases xs) auto

lemma hd_collapse_ws: "s \<noteq> [] \<Longrightarrow> \<not> is_ws (hd s) \<Longrightarrow> hd (collapse_ws s) = hd s"
  by (cases s) auto

lemma no_run_collapse_ws: "\<not> ws_run (collapse_ws s)"
proof (induction s rule: collapse_ws.induct)
  case 1
  show ?case by simp
next
  case (2 c cs)
  show ?case
  proof (cases "is_ws c")
    case True
    let ?r = "dropWhile is_ws cs"
    have "collapse_ws ?r = [] \<or> \<not> is_ws (hd (collapse_ws ?r))"
    proof (cases "?r = []")
      case True
      then show ?thesis by (simp only: collapse_ws.simps simp_thms)
    next
      case False
      then have "\<not> is_ws (hd ?r)"
        by (rule hd_dropWhile)
      with False show ?thesis
        by (simp only: hd_collapse_ws simp_thms)
    qed
    with True 2 show ?thesis
      by (auto simp: ws_run_Cons)
  next
    case False
    with 2 show ?thesis
      by (simp add: ws_run_Cons)
  qed
qed

lemma ws_run_append_left: "ws_run xs \<Longrightarrow> ws_run (ps @ xs)"
  by (induction ps) (auto simp: ws_run_Cons)

lemma ws_run_append_right: "ws_run xs \<Longrightarrow> ws_run (xs @ ss)"
  by (induction xs rule: ws_run.induct) auto

lemma ws_run_sublist: "sublist xs ys \<Longrightarrow> ws_run xs \<Longrightarrow> ws_run ys"
  by (auto simp: sublist_def intro: ws_run_append_left ws_run_append_right)

lemma prefix_js_trim: "prefix (js_trim s) (dropWhile is_ws s)"
  unfolding js_trim_def
  by (metis suffix_dropWhile suffix_to_prefix rev_rev_ident)

lemma sublist_js_trim: "sublist (js_trim s) s"
  by (meson prefix_js_trim prefix_imp_sublist suffix_dropWhile suffix_imp_sublist
      sublist_order.order_trans)

lemma no_run_snippet: "\<not> ws_run (js_slice0 (js_trim (collapse_ws s)) 240)"
proof -
  have "sublist (js_slice0 (js_trim (collapse_ws s)) 240) (collapse_ws s)"
    unfolding js_slice0_def
    by simp (meson sublist_js_trim sublist_take sublist_order.order_trans)
  then show ?thesis
    using no_run_collapse_ws ws_run_sublist by blast
qed

lemma length_js_slice0_numeral: "length (js_slice0 xs (numeral k)) \<le> numeral k"
  by (simp add: js_slice0_def)

lemma normalize_bounded:
  "length (snippet (normalize sha now msg p)) \<le> 240 \<and>
   \<not> ws_run (snippet (normalize sha now msg p)) \<and>
   length (bodyText (normalize sha now msg p)) \<le> 20000 \<and>
   length (bodyHtml (normalize sha now msg p)) \<le> 20000"
  by (simp add: normalize_def Let_def no_run_snippet length_js_slice0_numeral)

section \<open>UTF-8 on well-formed strings\<close>

lemma split_6_12: "(a::nat) div 0x1000 * 0x1000 + a div 0x40 mod 0x40 * 0x40 + a mod 0x40 = a"
proof -
  have "a div 0x40 div 0x40 = a div 0x1000"
    by (simp add: div_mult2_eq [symmetric])
  moreover have "a div 0x40 div 0x40 * 0x40 + a div 0x40 mod 0x40 = a div 0x40"
    by (rule div_mult_mod_eq)
  moreover have "a div 0x40 * 0x40 + a mod 0x40 = a"
    by (rule div_mult_mod_eq)
  ultimately show ?thesis
    by linarith
qed

lemma split_6_12_18:
  "(a::nat) div 0x40000 * 0x40000 + a div 0x1000 mod 0x40 * 0x1000 + a div 0x40 mod 0x40 * 0x40
     + a mod 0x40 = a"
proof -
  have "a div 0x1000 div 0x40 = a div 0x40000"
    by (simp add: div_mult2_eq [symmetric])
  moreover have "a div 0x1000 div 0x40 * 0x40 + a div 0x1000 mod 0x40 = a div 0x1000"
    by (rule div_mult_mod_eq)
  ultimately have "a div 0x40000 * 0x40000 + a div 0x1000 mod 0x40 * 0x1000 = a div 0x1000 * 0x1000"
    by linarith
  then show ?thesis
    using split_6_12 [of a] by linarith
qed

lemma utf8_decode_first_bytes:
  assumes "a < 0x110000"
  shows "utf8_decode_first (utf8_bytes a @ xs) = (a, xs)"
proof -
  consider "a < 0x80" | "0x80 \<le> a" "a < 0x800" | "0x800 \<le> a" "a < 0x10000" | "0x10000 \<le> a"
    by linarith
  then show ?thesis
  proof cases
    case 1
    then show ?thesis
      by (simp add: utf8_bytes_def utf8_decode_first_def)
  next
    case 2
    define b0 b1 where "b0 = 0xC0 + a div 0x40" and "b1 = 0x80 + a mod 0x40"
    have bytes: "utf8_bytes a = [b0, b1]"
      using 2 by (simp add: utf8_bytes_def b0_def b1_def)
    have "\<not> b0 < 0x80" and "b0 < 0xE0"
      using 2 unfolding b0_def by linarith+
    moreover have "(b0 - 0xC0) * 0x40 + (b1 - 0x80) = a"
      unfolding b0_def b1_def by simp
    ultimately show ?thesis
      by (simp add: bytes utf8_decode_first_def)
  next
    case 3
    define b0 b1 b2 where "b0 = 0xE0 + a div 0x1000" and "b1 = 0x80 + a div 0x40 mod 0x40"
      and "b2 = 0x80 + a mod 0x40"
    have bytes: "utf8_bytes a = [b0, b1, b2]"
      using 3 by (simp add: utf8_bytes_def b0_def b1_def b2_def)
    have "\<not> b0 < 0x80" and "\<not> b0 < 0xE0" and "b0 < 0xF0"
      using 3 unfolding b0_def by linarith+
    moreover have "(b0 - 0xE0) * 0x1000 + (b1 - 0x80) * 0x40 + (b2 - 0x80) = a"
      unfolding b0_def b1_def b2_def using split_6_12 [of a] by simp
    ultimately show ?thesis
      by (simp add: bytes utf8_decode_first_def)
  next
    case 4
    define b0 b1 b2 b3 where "b0 = 0xF0 + a div 0x40000" and "b1 = 0x80 + a div 0x1000 mod 0x40"
      and "b2 = 0x80 + a div 0x40 mod 0x40" and "b3 = 0x80 + a mod 0x40"
    have bytes: "utf8_bytes a = [b0, b1, b2, b3]"
      using 4 by (simp add: utf8_bytes_def b0_def b1_def b2_def b3_def)
    have "\<not> b0 < 0x80" and "\<not> b0 < 0xE0" and "\<not> b0 < 0xF0"
      unfolding b0_def by linarith+
    moreover have "(b0 - 0xF0) * 0x40000 + (b1 - 0x80) * 0x1000 + (b2 - 0x80) * 0x40 + (b3 - 0x80) = a"
      unfolding b0_def b1_def b2_def b3_def using split_6_12_18 [of a] by simp
    ultimately show ?thesis
      by (simp add: bytes utf8_decode_first_def)
  qed
qed

lemma utf8_bytes_prefix_free:
  assumes "a < 0x110000" "b < 0x110000" "utf8_bytes a @ xs = utf8_bytes b @ ys"
  shows "a = b \<and> xs = ys"
proof -
  have "utf8_decode_first (utf8_bytes a @ xs) = utf8_decode_first (utf8_bytes b @ ys)"
    using assms(3) by simp
  then show ?thesis
    using assms(1,2) by (simp add: utf8_decode_first_bytes)
qed

lemma utf8_bytes_not_Nil: "utf8_bytes a \<noteq> []"
  by (simp add: utf8_bytes_def)

lemma utf8_bytes_small:
  assumes a: "a < 0x110000" and x: "x \<in> set (utf8_bytes a)"
  shows "x < 256"
proof -
  have "a div 0x40 mod 0x40 < 0x40" "a div 0x1000 mod 0x40 < 0x40" "a mod 0x40 < 0x40"
    by simp_all
  moreover from a have "a div 0x40000 < 5" by linarith
  moreover have "a < 0x800 \<Longrightarrow> a div 0x40 < 0x20" "a < 0x10000 \<Longrightarrow> a div 0x1000 < 0x10"
    by linarith+
  ultimately show "x < 256"
    using x by (auto simp: utf8_bytes_def split: if_splits)
qed

lemma concat_utf8_bytes_inj:
  assumes "\<forall>a \<in> set as. a < 0x110000" "\<forall>b \<in> set bs. b < 0x110000"
    and "concat (map utf8_bytes as) = concat (map utf8_bytes bs)"
  shows "as = bs"
  using assms
proof (induction as arbitrary: bs)
  case Nil
  then show ?case
    by (cases bs) (simp_all add: utf8_bytes_not_Nil)
next
  case (Cons a as)
  show ?case
  proof (cases bs)
    case Nil
    with Cons.prems show ?thesis
      by (simp add: utf8_bytes_not_Nil)
  next
    case (Cons b bs')
    with Cons.prems have "utf8_bytes a @ concat (map utf8_bytes as)
        = utf8_bytes b @ concat (map utf8_bytes bs')"
      and "a < 0x110000" and "b < 0x110000"
      by simp_all
    then have "a = b" and "concat (map utf8_bytes as) = concat (map utf8_bytes bs')"
      using utf8_bytes_prefix_free by blast+
    with Cons.IH [of bs'] Cons.prems Cons show ?thesis
      by simp
  qed
qed

lemma map_of_nat_byte_inj:
  assumes "\<forall>x \<in> set xs. x < 256" "\<forall>y \<in> set ys. y < 256"
    and "map of_nat xs = (map of_nat ys :: 8 word list)"
  shows "xs = ys"
proof -
  have "inj_on (of_nat :: nat \<Rightarrow> 8 word) (set xs \<union> set ys)"
  proof (rule inj_onI)
    fix x y assume "x \<in> set xs \<union> set ys" "y \<in> set xs \<union> set ys"
      and eq: "(of_nat x :: 8 word) = of_nat y"
    then have "x < 256" "y < 256"
      using assms(1,2) by auto
    moreover from eq have "unat (of_nat x :: 8 word) = unat (of_nat y :: 8 word)"
      by simp
    ultimately show "x = y"
      by (simp add: unat_of_nat)
  qed
  with assms(3) show ?thesis
    by (rule map_inj_on)
qed

lemma unat_unit_bound: "unat (c :: 16 word) < 0x10000"
  using unsigned_less [of c, where 'a = nat] by simp

lemma is_high_unat: "is_high c \<longleftrightarrow> 0xD800 \<le> unat c \<and> unat c \<le> 0xDBFF"
  by (simp add: is_high_def word_le_nat_alt)

lemma is_low_unat: "is_low c \<longleftrightarrow> 0xDC00 \<le> unat c \<and> unat c \<le> 0xDFFF"
  by (simp add: is_low_def word_le_nat_alt)

lemma unit_point_bound: "unit_point c < 0x10000"
  using unat_unit_bound [of c] by (simp add: unit_point_def)

lemma pair_point_bounds:
  assumes "is_high c" "is_low d"
  shows "0x10000 \<le> pair_point c d" and "pair_point c d < 0x110000"
  using assms unfolding pair_point_def is_high_unat is_low_unat by linarith+

lemma code_points_bound: "a \<in> set (code_points s) \<Longrightarrow> a < 0x110000"
proof (induction s arbitrary: a rule: code_points.induct)
  case 1
  then show ?case by simp
next
  case (2 c)
  then show ?case
    using unit_point_bound [of c] by simp
next
  case (3 c d cs)
  show ?case
  proof (cases "is_high c \<and> is_low d")
    case True
    with 3 pair_point_bounds(2) [of c d] show ?thesis
      by auto
  next
    case False
    with 3 unit_point_bound [of c] show ?thesis
      by auto
  qed
qed

lemma utf8_nat_bytes_small:
  assumes "x \<in> set (concat (map utf8_bytes (code_points s)))"
  shows "x < 256"
proof -
  from assms obtain a where "a \<in> set (code_points s)" and "x \<in> set (utf8_bytes a)"
    by auto
  then show ?thesis
    using code_points_bound utf8_bytes_small by blast
qed

lemma utf8_eq_iff_code_points: "utf8 s = utf8 t \<longleftrightarrow> code_points s = code_points t"
proof
  assume "utf8 s = utf8 t"
  then have "map of_nat (concat (map utf8_bytes (code_points s)))
      = (map of_nat (concat (map utf8_bytes (code_points t))) :: 8 word list)"
    by (simp add: utf8_def)
  moreover have "\<forall>x \<in> set (concat (map utf8_bytes (code_points s))). x < 256"
    and "\<forall>x \<in> set (concat (map utf8_bytes (code_points t))). x < 256"
    using utf8_nat_bytes_small by blast+
  ultimately have "concat (map utf8_bytes (code_points s))
      = concat (map utf8_bytes (code_points t))"
    using map_of_nat_byte_inj by blast
  moreover have "\<forall>a \<in> set (code_points s). a < 0x110000"
    and "\<forall>a \<in> set (code_points t). a < 0x110000"
    using code_points_bound by blast+
  ultimately show "code_points s = code_points t"
    using concat_utf8_bytes_inj by blast
next
  assume "code_points s = code_points t"
  then show "utf8 s = utf8 t"
    by (simp add: utf8_def)
qed

lemma utf16_units_unit:
  assumes "\<not> is_high c" "\<not> is_low c"
  shows "utf16_units (unit_point c) = [c]"
  using assms unat_unit_bound [of c] by (simp add: utf16_units_def unit_point_def)

lemma utf16_units_pair:
  assumes h: "is_high c" and l: "is_low d"
  shows "utf16_units (pair_point c d) = [c, d]"
proof -
  define x y where "x = unat c - 0xD800" and "y = unat d - 0xDC00"
  from h l have c: "unat c = 0xD800 + x" and d: "unat d = 0xDC00 + y" and y: "y < 0x400"
    unfolding x_def y_def is_high_unat is_low_unat by linarith+
  have p: "pair_point c d - 0x10000 = x * 0x400 + y"
    by (simp add: pair_point_def x_def y_def)
  have "(x * 0x400 + y) div 0x400 = x" and "(x * 0x400 + y) mod 0x400 = y"
    using y by simp_all
  then have "utf16_units (pair_point c d) = [of_nat (unat c), of_nat (unat d)]"
    using pair_point_bounds(1) [OF h l] by (simp add: utf16_units_def p c d)
  then show ?thesis
    by simp
qed

lemma utf16_units_code_points:
  "well_formed s \<Longrightarrow> concat (map utf16_units (code_points s)) = s"
proof (induction s rule: code_points.induct)
  case 1
  show ?case by simp
next
  case (2 c)
  then show ?case
    by (simp add: utf16_units_unit)
next
  case (3 c d cs)
  show ?case
  proof (cases "is_high c \<and> is_low d")
    case True
    with 3 show ?thesis
      by (simp add: utf16_units_pair)
  next
    case False
    with 3 show ?thesis
      by (simp add: utf16_units_unit)
  qed
qed

lemma code_points_inj:
  assumes "well_formed s" "well_formed t" "code_points s = code_points t"
  shows "s = t"
proof -
  have "concat (map utf16_units (code_points s)) = concat (map utf16_units (code_points t))"
    using assms(3) by simp
  with assms(1,2) show ?thesis
    by (simp add: utf16_units_code_points)
qed

lemma code_points_append:
  "xs = [] \<or> \<not> is_high (last xs) \<Longrightarrow> code_points (xs @ ys) = code_points xs @ code_points ys"
proof (induction xs rule: code_points.induct)
  case 1
  show ?case by simp
next
  case (2 c)
  then show ?case
    by (cases ys) simp_all
next
  case (3 c d cs)
  show ?case
  proof (cases "is_high c \<and> is_low d")
    case True
    from 3(3) have "cs = [] \<or> \<not> is_high (last cs)"
      by (cases cs) simp_all
    with 3(1) True show ?thesis
      by simp
  next
    case False
    from 3(3) have "\<not> is_high (last (d # cs))"
      by simp
    with 3(2) False have "code_points ((d # cs) @ ys) = code_points (d # cs) @ code_points ys"
      by blast
    with False show ?thesis
      by auto
  qed
qed

lemma utf8_append_inj:
  assumes "\<not> is_high sep" "well_formed s" "well_formed t"
    and "utf8 (pre @ sep # s) = utf8 (pre @ sep # t)"
  shows "s = t"
proof -
  have split: "code_points ((pre @ [sep]) @ r) = code_points (pre @ [sep]) @ code_points r" for r
    using assms(1) by (intro code_points_append) simp
  from assms(4) have "code_points (pre @ sep # s) = code_points (pre @ sep # t)"
    by (simp only: utf8_eq_iff_code_points)
  then have "code_points ((pre @ [sep]) @ s) = code_points ((pre @ [sep]) @ t)"
    by simp
  then have "code_points s = code_points t"
    by (simp only: split same_append_eq)
  with assms(2,3) show ?thesis
    by (rule code_points_inj)
qed

lemma thread_key_input_sep:
  "thread_key_input rs irt mid subj frm
     = str_or (js_join rs) (str_or irt (str_or mid subj)) @ 0x7C # frm"
  by (simp add: thread_key_input_def js_def)

lemma thread_key_bytes_inj:
  assumes "well_formed f1" "well_formed f2"
    and "utf8 (thread_key_input rs irt mid subj f1) = utf8 (thread_key_input rs irt mid subj f2)"
  shows "f1 = f2"
proof -
  have "\<not> is_high (0x7C :: 16 word)"
    by (simp add: is_high_def)
  then show ?thesis
    using assms unfolding thread_key_input_sep by (rule utf8_append_inj)
qed

lemma lone_surrogates_same_bytes:
  "utf8 (thread_key_input rs irt mid subj [0xD800]) = utf8 (thread_key_input rs irt mid subj [0xD801])"
proof -
  let ?pre = "str_or (js_join rs) (str_or irt (str_or mid subj)) @ [0x7C]"
  have sep: "?pre = [] \<or> \<not> is_high (last ?pre)"
    by (simp add: is_high_def)
  have "code_points (?pre @ [0xD800]) = code_points (?pre @ [0xD801])"
    unfolding code_points_append [OF sep]
    by (simp add: unit_point_def is_high_def)
  then show ?thesis
    by (simp add: utf8_eq_iff_code_points thread_key_input_sep)
qed

section \<open>The batch of a synchronisation\<close>

lemma sync_loop_result:
  "sync_loop w now items mx acc = Inr (cur, msgs) \<Longrightarrow>
     cur = fold max (map f_uid items) mx \<and>
     (\<exists>new. msgs = acc @ new \<and> list_all2 (produced w now) items new)"
proof (induction items arbitrary: mx acc)
  case Nil
  then show ?case by simp
next
  case (Cons item rest)
  from Cons.prems obtain p where p: "mime_parse w (f_source item) = Inr p"
    and rec: "sync_loop w now rest (max mx (f_uid item))
                (acc @ [normalize (sha256_hex w) now item p]) = Inr (cur, msgs)"
    by (auto split: sum.splits)
  from Cons.IH [OF rec] obtain new where
    c: "cur = fold max (map f_uid rest) (max mx (f_uid item))"
    and m: "msgs = (acc @ [normalize (sha256_hex w) now item p]) @ new"
    and l: "list_all2 (produced w now) rest new"
    by blast
  have "produced w now item (normalize (sha256_hex w) now item p)"
    by (simp add: produced_def p)
  with l have "list_all2 (produced w now) (item # rest) (normalize (sha256_hex w) now item p # new)"
    by simp
  with c m show ?case
    by (auto simp: max.commute)
qed

lemma sync_handler_ok:
  assumes "sync_handler w now req = ((200, SyncBody cur msgs), t)"
  shows "\<exists>found items.
           imap_search w (sync_criteria now req) = Inr found \<and>
           imap_fetch w (select_uids found (nullish (sq_limit req) 50)) = Inr items \<and>
           sync_loop w now items (init_max (sq_cursor req)) [] = Inr (cur, msgs)"
  using assms
  by (auto simp: sync_handler_def sync_locked_def Let_def
      split: if_splits option.splits sum.splits prod.splits)

lemma fold_max_Max: "fold max xs (m::nat) = Max (insert m (set xs))"
  using Max.set_eq_fold [of m xs] by simp

lemma set_select_uids: "set (select_uids found n) \<subseteq> set found"
proof -
  have "set (js_slice0 (rev (sort found)) n) \<subseteq> set (rev (sort found))"
    by (auto simp: js_slice0_def dest: in_set_takeD)
  then show ?thesis
    by (simp add: select_uids_def)
qed

lemma sorted_select_uids: "sorted (select_uids found n)"
  by (simp add: select_uids_def)

lemma subseq_set: "subseq xs ys \<Longrightarrow> set xs \<subseteq> set ys"
  by (auto elim: list_emb_set)

lemma sorted_subseq: "subseq xs ys \<Longrightarrow> sorted ys \<Longrightarrow> sorted (xs :: nat list)"
proof (induction rule: list_emb.induct)
  case (list_emb_Nil ys)
  show ?case by simp
next
  case (list_emb_Cons xs ys y)
  then show ?case by simp
next
  case (list_emb_Cons2 x y xs ys)
  then have "sorted xs" and "\<forall>z \<in> set ys. y \<le> z"
    by simp_all
  moreover have "set xs \<subseteq> set ys"
    using list_emb_Cons2.hyps(2) by (rule subseq_set)
  ultimately show ?case
    using list_emb_Cons2.hyps(1) by auto
qed

lemma sorted_map_mono: "mono u \<Longrightarrow> sorted xs \<Longrightarrow> sorted (map u (xs :: nat list) :: nat list)"
  by (simp add: sorted_map) (erule sorted_wrt_mono_rel [rotated], auto dest: monoD)

lemma init_max_nullish: "init_max c = nullish c 0"
  by (cases c) (auto simp: init_max_def cursor_number_def nullish_def)

lemma sync_loop_floor:
  "sync_loop w now items mx acc =
     (case sync_loop w now items 0 acc of
        Inl e \<Rightarrow> Inl e
      | Inr (cur, msgs) \<Rightarrow> Inr (max mx cur, msgs))"
proof (induction items arbitrary: mx acc)
  case Nil
  show ?case by simp
next
  case (Cons item rest)
  show ?case
  proof (cases "mime_parse w (f_source item)")
    case (Inl e)
    then show ?thesis by simp
  next
    case (Inr p)
    let ?acc = "acc @ [normalize (sha256_hex w) now item p]"
    have "sync_loop w now (item # rest) mx acc = sync_loop w now rest (max mx (f_uid item)) ?acc"
      and "sync_loop w now (item # rest) 0 acc = sync_loop w now rest (f_uid item) ?acc"
      using Inr by simp_all
    moreover note Cons.IH [of "max mx (f_uid item)" ?acc] Cons.IH [of "f_uid item" ?acc]
    ultimately show ?thesis
      by (simp add: max.assoc split: sum.splits prod.splits)
  qed
qed

lemma no_search_append: "no_search (xs @ ys) = no_search xs @ no_search ys"
  by (induction xs rule: no_search.induct) simp_all

lemma sync_locked_first_sync:
  assumes "imap_search w (sync_criteria now req)
      = imap_search w (sync_criteria now (req\<lparr>sq_cursor := None\<rparr>))"
  shows "fst (sync_locked w now req)
      = (case fst (sync_locked w now (req\<lparr>sq_cursor := None\<rparr>)) of
           Inl e \<Rightarrow> Inl e
         | Inr (cur, msgs) \<Rightarrow> Inr (max (nullish (sq_cursor req) 0) cur, msgs))"
    and "no_search (snd (sync_locked w now req))
      = no_search (snd (sync_locked w now (req\<lparr>sq_cursor := None\<rparr>)))"
proof -
  let ?r0 = "req\<lparr>sq_cursor := None\<rparr>"
  have i0: "init_max None = 0"
    by (simp add: init_max_def)
  have i: "init_max (sq_cursor req) = nullish (sq_cursor req) 0"
    by (rule init_max_nullish)
  show "fst (sync_locked w now req)
      = (case fst (sync_locked w now ?r0) of
           Inl e \<Rightarrow> Inl e
         | Inr (cur, msgs) \<Rightarrow> Inr (max (nullish (sq_cursor req) 0) cur, msgs))"
  proof (cases "imap_search w (sync_criteria now ?r0)")
    case (Inl e)
    with assms show ?thesis
      by (simp add: sync_locked_def Let_def)
  next
    case found: (Inr found)
    show ?thesis
    proof (cases "imap_fetch w (select_uids found (nullish (sq_limit req) 50))")
      case (Inl e)
      with assms found show ?thesis
        by (simp add: sync_locked_def Let_def)
    next
      case (Inr items)
      with assms found show ?thesis
        by (simp add: sync_locked_def Let_def i0 i
            sync_loop_floor [of w now items "nullish (sq_cursor req) 0"])
    qed
  qed
  show "no_search (snd (sync_locked w now req)) = no_search (snd (sync_locked w now ?r0))"
    using assms by (simp add: sync_locked_def Let_def split: sum.splits)
qed

lemma select_uids_eq:
  assumes "0 \<le> lim"
  shows "select_uids found lim = drop (length found - nat lim) (sort found)"
proof -
  have "js_slice0 (rev (sort found)) lim = rev (drop (length found - nat lim) (sort found))"
    using assms by (simp add: js_slice0_def take_rev)
  moreover have "sort (rev (drop (length found - nat lim) (sort found)))
      = drop (length found - nat lim) (sort found)"
    by (rule properties_for_sort) (simp_all add: sorted_wrt_drop)
  ultimately show ?thesis
    by (simp add: select_uids_def)
qed

lemma sorted_take_le_drop:
  assumes "sorted (xs :: nat list)" "d \<in> set (take k xs)" "r \<in> set (drop k xs)"
  shows "d \<le> r"
proof -
  from assms(1) have "sorted (take k xs @ drop k xs)" by simp
  with assms(2,3) show ?thesis
    unfolding sorted_append by blast
qed

lemma drop_neq_take:
  assumes d: "distinct xs" and l: "0 < l" "l < length xs"
  shows "drop (length xs - l) xs \<noteq> take l xs"
proof
  assume eq: "drop (length xs - l) xs = take l xs"
  from l have k: "length xs - l < length xs" "0 < length xs - l" by simp_all
  from l have "(drop (length xs - l) xs) ! 0 = xs ! (length xs - l)"
    by simp
  moreover from l have "(take l xs) ! 0 = xs ! 0"
    by simp
  ultimately have "xs ! (length xs - l) = xs ! 0"
    using eq by simp
  moreover have "(xs ! (length xs - l) = xs ! 0) = (length xs - l = 0)"
    using d k(1) by (intro nth_eq_iff_index_eq) auto
  ultimately show False
    using k(2) by simp
qed

section \<open>Traces\<close>

lemma smtp_hosts_append: "smtp_hosts (xs @ ys) = smtp_hosts xs @ smtp_hosts ys"
  by (induction xs rule: smtp_hosts.induct) simp_all

lemma smtp_hosts_testImap: "smtp_hosts (snd (testImap w e p adv)) = []"
  by (simp add: testImap_def Let_def split: option.splits)

lemma testSmtp_host:
  "sr_smtpHost (fst (testSmtp w e p adv None)) = js ''mail.privateemail.com''"
  "sr_smtpHost (fst (testSmtp w e p adv (Some h))) = h"
  "smtp_hosts (snd (testSmtp w e p adv None)) = [js ''mail.privateemail.com'']"
  "smtp_hosts (snd (testSmtp w e p adv (Some h))) = [h]"
  by (simp_all add: testSmtp_def cfg_def nullish_def Let_def split: option.splits)

lemma testImap_ignores_smtpHost:
  "testImap w e p (Some (adv\<lparr>ov_smtpHost := h\<rparr>)) = testImap w e p (Some adv)"
  by (simp add: testImap_def cfg_def adv_or_empty_def nullish_def)

lemma testSmtp_ignores_smtpHost:
  "testSmtp w e p (Some (adv\<lparr>ov_smtpHost := h\<rparr>)) ovr = testSmtp w e p (Some adv) ovr"
  by (simp add: testSmtp_def adv_or_empty_def nullish_def)

lemma send_params_ignores_smtpHost:
  "send_params (sreq\<lparr>nq_advanced := Some (adv\<lparr>ov_smtpHost := h\<rparr>)\<rparr>) host
     = send_params (sreq\<lparr>nq_advanced := Some adv\<rparr>) host"
  by (simp add: send_params_def adv_or_empty_def nullish_def)

lemma send_params_host:
  "sp_host (send_params req h) = h"
  "send_params req h' = (send_params req h)\<lparr>sp_host := h'\<rparr>"
  by (simp_all add: send_params_def cfg_def nullish_def Let_def)

lemma send_handler_valid:
  assumes "send_valid req"
  shows "send_handler w req =
           (case trySend w req (js ''mail.privateemail.com'') of
              (Inr b, t1) \<Rightarrow> ((200, b), t1)
            | (Inl _, t1) \<Rightarrow>
                (case trySend w req (js ''smtp.privateemail.com'') of
                   (Inr b, t2) \<Rightarrow> ((200, b), t1 @ t2)
                 | (Inl e, t2) \<Rightarrow> ((500, ErrorBody e), t1 @ t2)))"
  using assms by (auto simp: send_handler_def send_valid_def)

section \<open>The sample session\<close>

lemma mailbox_fetch_in_order: "fetch_in_order (\<lambda>i. i) (mailbox_collab box)"
  by (auto simp: fetch_in_order_def mailbox_collab_def demo_item_def comp_def)

lemma mailbox_fetch_all: "fetch_all (\<lambda>i. i) (mailbox_collab box)"
  by (auto simp: fetch_all_def mailbox_collab_def demo_item_def comp_def)

lemma rfc_fetch_in_order: "fetch_in_order (\<lambda>i. i) (rfc_collab box)"
  by (auto simp: fetch_in_order_def rfc_collab_def mailbox_collab_def demo_item_def comp_def)

lemma demo_fetch_in_order: "fetch_in_order (\<lambda>i. i) demo_collab"
  unfolding demo_collab_def by (rule mailbox_fetch_in_order)

lemma demo_fetch_all: "fetch_all (\<lambda>i. i) demo_collab"
  unfolding demo_collab_def by (rule mailbox_fetch_all)

lemma mono_ident: "mono (\<lambda>i::nat. i)"
  by (simp add: mono_def)

lemmas demo_run_defs =
  sync_handler_def sync_locked_def sync_criteria_def since_date_def js_plus1_def
  select_uids_def js_slice0_def
  init_max_def cursor_number_def nullish_def demo_collab_def mailbox_collab_def demo_req_def
  demo_message_def demo_item_def js_def Let_def

lemma demo_sync_first:
  "sync_handler demo_collab 0 demo_req
     = ((200, SyncBody 3 [demo_message 1, demo_message 2, demo_message 3]),
        snd (sync_handler demo_collab 0 demo_req))"
  by (simp add: demo_run_defs)

lemma demo_sync_cursor1:
  "sync_handler demo_collab 0 (demo_req\<lparr>sq_cursor := Some 1\<rparr>)
     = ((200, SyncBody 3 [demo_message 2, demo_message 3]),
        snd (sync_handler demo_collab 0 (demo_req\<lparr>sq_cursor := Some 1\<rparr>)))"
  by (simp add: demo_run_defs)

lemma demo_sync_cursor3:
  "sync_handler (mailbox_collab [3, 1, 2, 5, 4]) 0 (demo_req\<lparr>sq_cursor := Some 3\<rparr>)
     = ((200, SyncBody 5 [demo_message 4, demo_message 5]),
        snd (sync_handler (mailbox_collab [3, 1, 2, 5, 4]) 0 (demo_req\<lparr>sq_cursor := Some 3\<rparr>)))"
  by (simp add: demo_run_defs)

lemma demo_sync_limit2:
  "sync_handler demo_collab 0 (demo_req\<lparr>sq_limit := Some 2\<rparr>)
     = ((200, SyncBody 3 [demo_message 2, demo_message 3]),
        snd (sync_handler demo_collab 0 (demo_req\<lparr>sq_limit := Some 2\<rparr>)))"
  by (simp add: demo_run_defs)

lemma rfc_sync_stale:
  "sync_handler (rfc_collab [1, 2, 3, 4]) 0 (demo_req\<lparr>sq_cursor := Some 5\<rparr>)
     = ((200, SyncBody 5 [demo_message 4]),
        snd (sync_handler (rfc_collab [1, 2, 3, 4]) 0 (demo_req\<lparr>sq_cursor := Some 5\<rparr>)))"
  by (simp add: demo_run_defs rfc_collab_def)

lemma rfc_sync_again:
  "sync_handler (rfc_collab [1, 2, 3, 4, 5]) 0 (demo_req\<lparr>sq_cursor := Some 5\<rparr>)
     = ((200, SyncBody 5 [demo_message 5]),
        snd (sync_handler (rfc_collab [1, 2, 3, 4, 5]) 0 (demo_req\<lparr>sq_cursor := Some 5\<rparr>)))"
  by (simp add: demo_run_defs rfc_collab_def)

section \<open>Claims about synchronisation\<close>

text \<open>
  Claim C1, as amended. A sync call that answers 200 returns its messages in ascending
  order of UID, and its cursor is the larger of the cursor of the request (\<open>0\<close> when the
  request has none) and the largest UID of the fetched batch; with an empty batch it is
  the cursor of the request. The session is assumed to yield the items in the order
  requested. The messages carry no UID themselves: \<open>produced\<close> ties each of them to the
  fetched item it was built from.
\<close>

theorem sync_sorted_and_cursor:
  assumes ok: "sync_handler w now req = ((200, SyncBody cur msgs), t)"
    and u: "mono u" and f: "fetch_in_order u w"
  shows "\<exists>found items.
           imap_search w (sync_criteria now req) = Inr found \<and>
           imap_fetch w (select_uids found (nullish (sq_limit req) 50)) = Inr items \<and>
           list_all2 (produced w now) items msgs \<and>
           sorted (map f_uid items) \<and>
           cur = (if items = [] then nullish (sq_cursor req) 0
                  else max (nullish (sq_cursor req) 0) (Max (set (map f_uid items))))"
proof -
  from sync_handler_ok [OF ok] obtain found items where
    found: "imap_search w (sync_criteria now req) = Inr found"
    and items: "imap_fetch w (select_uids found (nullish (sq_limit req) 50)) = Inr items"
    and loop: "sync_loop w now items (init_max (sq_cursor req)) [] = Inr (cur, msgs)"
    by blast
  let ?uids = "select_uids found (nullish (sq_limit req) 50)"
  from sync_loop_result [OF loop] have
    cur: "cur = fold max (map f_uid items) (init_max (sq_cursor req))"
    and prod: "list_all2 (produced w now) items msgs"
    by auto
  from f items have sub: "subseq (map f_uid items) (map u ?uids)"
    by (simp add: fetch_in_order_def)
  have "sorted (map u ?uids)"
    using u sorted_select_uids by (rule sorted_map_mono)
  with sub have srt: "sorted (map f_uid items)"
    by (rule sorted_subseq)
  have "cur = (if items = [] then nullish (sq_cursor req) 0
               else max (nullish (sq_cursor req) 0) (Max (set (map f_uid items))))"
  proof (cases "items = []")
    case True
    with cur show ?thesis by (simp add: init_max_nullish)
  next
    case False
    then have "Max (insert (init_max (sq_cursor req)) (set (map f_uid items)))
        = max (init_max (sq_cursor req)) (Max (set (map f_uid items)))"
      by (intro Max_insert) simp_all
    with cur False show ?thesis
      by (simp add: fold_max_Max init_max_nullish)
  qed
  with found items prod srt show ?thesis by blast
qed

theorem sync_sorted_and_cursor_witness:
  "\<exists>found items.
     imap_search (rfc_collab [1, 2, 3, 4]) (sync_criteria 0 (demo_req\<lparr>sq_cursor := Some 5\<rparr>))
       = Inr found \<and>
     imap_fetch (rfc_collab [1, 2, 3, 4])
       (select_uids found (nullish (sq_limit (demo_req\<lparr>sq_cursor := Some 5\<rparr>)) 50)) = Inr items \<and>
     list_all2 (produced (rfc_collab [1, 2, 3, 4]) 0) items [demo_message 4] \<and>
     sorted (map f_uid items) \<and>
     (5::nat) = (if items = [] then nullish (sq_cursor (demo_req\<lparr>sq_cursor := Some 5\<rparr>)) 0
                else max (nullish (sq_cursor (demo_req\<lparr>sq_cursor := Some 5\<rparr>)) 0)
                       (Max (set (map f_uid items))))"
  by (rule sync_sorted_and_cursor [OF rfc_sync_stale mono_ident rfc_fetch_in_order])

text \<open>
  The claim as it was stated makes the cursor the largest UID of a batch that is not
  empty. A mailbox holds the UIDs 1 to 4 and the request has cursor 5, as after the
  message with UID 5 was deleted. The search for \<open>"6:*"\<close> finds the last message, the
  batch is the message with UID 4, and the cursor of the answer is 5.
\<close>

theorem sync_cursor_above_batch_counterexample:
  "imap_search (rfc_collab [1, 2, 3, 4]) (sync_criteria 0 (demo_req\<lparr>sq_cursor := Some 5\<rparr>))
     = Inr [4] \<and>
   imap_fetch (rfc_collab [1, 2, 3, 4])
     (select_uids [4] (nullish (sq_limit (demo_req\<lparr>sq_cursor := Some 5\<rparr>)) 50))
     = Inr [demo_item 4] \<and>
   fst (sync_handler (rfc_collab [1, 2, 3, 4]) 0 (demo_req\<lparr>sq_cursor := Some 5\<rparr>))
     = (200, SyncBody 5 [demo_message 4]) \<and>
   Max (set (map f_uid [demo_item 4])) = 4 \<and>
   (5::nat) \<noteq> Max (set (map f_uid [demo_item 4]))"
  by (simp add: demo_run_defs rfc_collab_def)

text \<open>
  Claim C2. When the search finds more than \<open>limit\<close> candidates (\<open>limit\<close> not negative), the
  batch is the last \<open>limit\<close> entries of the ascending list of candidates: it has \<open>limit\<close>
  messages, in ascending order, every candidate left out has a UID no larger than any
  kept, and for distinct candidates it differs from the first \<open>limit\<close> entries. The
  session is assumed to yield one item for each identifier requested, in order.
\<close>

theorem sync_keeps_most_recent:
  assumes ok: "sync_handler w now req = ((200, SyncBody cur msgs), t)"
    and found: "imap_search w (sync_criteria now req) = Inr found"
    and lim: "lim = nullish (sq_limit req) 50" "0 \<le> lim" "lim < int (length found)"
    and u: "mono u" and f: "fetch_all u w"
  shows "\<exists>items.
           imap_fetch w (select_uids found lim) = Inr items \<and>
           list_all2 (produced w now) items msgs \<and>
           length msgs = nat lim \<and>
           map f_uid items = map u (drop (length found - nat lim) (sort found)) \<and>
           sorted (map f_uid items) \<and>
           (\<forall>d \<in> set (take (length found - nat lim) (sort found)).
              \<forall>x \<in> set (map f_uid items). u d \<le> x) \<and>
           (distinct found \<and> 0 < lim \<longrightarrow> select_uids found lim \<noteq> take (nat lim) (sort found))"
proof -
  let ?k = "length found - nat lim"
  from sync_handler_ok [OF ok] found lim(1) obtain items where
    items: "imap_fetch w (select_uids found lim) = Inr items"
    and loop: "sync_loop w now items (init_max (sq_cursor req)) [] = Inr (cur, msgs)"
    by auto
  from sync_loop_result [OF loop] have prod: "list_all2 (produced w now) items msgs"
    by auto
  have sel: "select_uids found lim = drop ?k (sort found)"
    using lim(2) by (rule select_uids_eq)
  from f items have uids: "map f_uid items = map u (drop ?k (sort found))"
    by (simp add: fetch_all_def sel)
  have "length items = length (map u (drop ?k (sort found)))"
    using uids by (metis length_map)
  with lim have len: "length items = nat lim"
    by simp
  with prod have lmsgs: "length msgs = nat lim"
    by (simp add: list_all2_lengthD [symmetric])
  have srt: "sorted (map f_uid items)"
    unfolding uids using u by (intro sorted_map_mono) (simp_all add: sorted_wrt_drop)
  have low: "\<forall>d \<in> set (take ?k (sort found)). \<forall>x \<in> set (map f_uid items). u d \<le> x"
  proof (intro ballI)
    fix d x assume d: "d \<in> set (take ?k (sort found))" and "x \<in> set (map f_uid items)"
    then obtain r where r: "r \<in> set (drop ?k (sort found))" and x: "x = u r"
      unfolding uids by auto
    have "d \<le> r"
      using sorted_take_le_drop [OF _ d r] by simp
    with u x show "u d \<le> x"
      by (simp add: monoD)
  qed
  have "distinct found \<and> 0 < lim \<longrightarrow> select_uids found lim \<noteq> take (nat lim) (sort found)"
  proof
    assume a: "distinct found \<and> 0 < lim"
    then have "distinct (sort found)" by simp
    moreover from a have "0 < nat lim" by simp
    moreover from lim(2,3) have "nat lim < length (sort found)" by simp
    ultimately have "drop (length (sort found) - nat lim) (sort found) \<noteq> take (nat lim) (sort found)"
      by (rule drop_neq_take)
    then show "select_uids found lim \<noteq> take (nat lim) (sort found)"
      by (simp add: sel)
  qed
  with items prod lmsgs uids srt low show ?thesis by blast
qed

theorem sync_keeps_most_recent_witness:
  "\<exists>items.
     imap_fetch demo_collab (select_uids [3, 1, 2] 2) = Inr items \<and>
     list_all2 (produced demo_collab 0) items [demo_message 2, demo_message 3] \<and>
     map f_uid items = [2, 3] \<and>
     select_uids [3, 1, 2] 2 \<noteq> [1, 2]"
proof -
  have found: "imap_search demo_collab (sync_criteria 0 (demo_req\<lparr>sq_limit := Some 2\<rparr>))
      = Inr [3, 1, 2]"
    by (simp add: sync_criteria_def since_date_def nullish_def demo_collab_def
        mailbox_collab_def demo_req_def)
  have lim: "(2::int) = nullish (sq_limit (demo_req\<lparr>sq_limit := Some 2\<rparr>)) 50"
    by (simp add: nullish_def)
  from sync_keeps_most_recent [OF demo_sync_limit2 found lim _ _ mono_ident demo_fetch_all]
  obtain items where
    "imap_fetch demo_collab (select_uids [3, 1, 2] 2) = Inr items"
    "list_all2 (produced demo_collab 0) items [demo_message 2, demo_message 3]"
    "map f_uid items = map (\<lambda>i. i) (drop (length [3, 1, 2 :: nat] - nat 2) (sort [3, 1, 2]))"
    "distinct [3, 1, 2 :: nat] \<and> 0 < (2::int) \<longrightarrow>
       select_uids [3, 1, 2] 2 \<noteq> take (nat 2) (sort [3, 1, 2])"
    by auto
  then show ?thesis
    by (intro exI [of _ items]) simp
qed

text \<open>
  Claim C4, as amended. A request whose cursor is present, not \<open>0\<close> and below \<open>2^53\<close>
  searches for the identifiers from \<open>cursor + 1\<close> upward; a request whose cursor is
  absent or \<open>0\<close> searches for the messages since \<open>now\<close> minus \<open>backfillDays\<close> days (14
  when absent), as long as that is a valid date. A handler issues no other search, and
  exactly this one when it answers 200. Apart from the search, a request with a cursor
  differs from the same request without one in the starting value of the running
  maximum only: when the session answers both searches alike, the two answers are the
  same but for the cursor, which is raised to at least the cursor of the request, and
  the two traces are the same but for the search.
\<close>

theorem sync_search_by_cursor:
  "(sq_cursor req = Some c \<and> c \<noteq> 0 \<and> c < 2 ^ 53 \<longrightarrow> sync_criteria now req = UidFrom (c + 1)) \<and>
   ((sq_cursor req = None \<or> sq_cursor req = Some 0) \<and>
    \<bar>now - nullish (sq_backfillDays req) 14 * 86400000\<bar> \<le> 8640000000000000 \<longrightarrow>
      sync_criteria now req = Since (now - nullish (sq_backfillDays req) 14 * 86400000)) \<and>
   set (searches (snd (sync_handler w now req))) \<subseteq> {sync_criteria now req} \<and>
   (fst (fst (sync_handler w now req)) = 200 \<longrightarrow>
      searches (snd (sync_handler w now req)) = [sync_criteria now req]) \<and>
   (imap_search w (sync_criteria now req)
      = imap_search w (sync_criteria now (req\<lparr>sq_cursor := None\<rparr>)) \<longrightarrow>
      fst (sync_handler w now req)
        = raise_cursor (nullish (sq_cursor req) 0) (fst (sync_handler w now (req\<lparr>sq_cursor := None\<rparr>))) \<and>
      no_search (snd (sync_handler w now req))
        = no_search (snd (sync_handler w now (req\<lparr>sq_cursor := None\<rparr>))))"
proof (intro conjI impI)
  assume "sq_cursor req = Some c \<and> c \<noteq> 0 \<and> c < 2 ^ 53"
  then show "sync_criteria now req = UidFrom (c + 1)"
    by (simp add: sync_criteria_def js_plus1_def cursor_number_def nullish_def)
next
  assume "(sq_cursor req = None \<or> sq_cursor req = Some 0) \<and>
    \<bar>now - nullish (sq_backfillDays req) 14 * 86400000\<bar> \<le> 8640000000000000"
  then show "sync_criteria now req = Since (now - nullish (sq_backfillDays req) 14 * 86400000)"
    by (auto simp: sync_criteria_def since_date_def Let_def mult.commute)
next
  show "set (searches (snd (sync_handler w now req))) \<subseteq> {sync_criteria now req}"
    by (auto simp: sync_handler_def sync_locked_def Let_def
        split: option.splits sum.splits prod.splits if_splits)
next
  assume "fst (fst (sync_handler w now req)) = 200"
  then show "searches (snd (sync_handler w now req)) = [sync_criteria now req]"
    by (auto simp: sync_handler_def sync_locked_def Let_def
        split: option.splits sum.splits prod.splits if_splits)
next
  let ?r0 = "req\<lparr>sq_cursor := None\<rparr>"
  assume same: "imap_search w (sync_criteria now req) = imap_search w (sync_criteria now ?r0)"
  note locked = sync_locked_first_sync [OF same]
  show "fst (sync_handler w now req)
      = raise_cursor (nullish (sq_cursor req) 0) (fst (sync_handler w now ?r0))"
    using locked(1)
    by (cases "sync_locked w now req"; cases "sync_locked w now ?r0")
      (auto simp: sync_handler_def Let_def split: option.splits sum.splits)
  show "no_search (snd (sync_handler w now req)) = no_search (snd (sync_handler w now ?r0))"
    using locked(2)
    by (cases "sync_locked w now req"; cases "sync_locked w now ?r0")
      (auto simp: sync_handler_def Let_def no_search_append split: option.splits sum.splits)
qed

theorem sync_search_by_cursor_witness:
  "sq_cursor (demo_req\<lparr>sq_cursor := Some 1\<rparr>) = Some 1 \<and>
   sync_criteria 0 (demo_req\<lparr>sq_cursor := Some 1\<rparr>) = UidFrom 2 \<and>
   searches (snd (sync_handler demo_collab 0 (demo_req\<lparr>sq_cursor := Some 1\<rparr>))) = [UidFrom 2] \<and>
   imap_search (mailbox_collab [3, 2]) (sync_criteria 0 (demo_req\<lparr>sq_cursor := Some 1\<rparr>))
     = imap_search (mailbox_collab [3, 2]) (sync_criteria 0 demo_req) \<and>
   fst (sync_handler (mailbox_collab [3, 2]) 0 (demo_req\<lparr>sq_cursor := Some 1\<rparr>))
     = raise_cursor 1 (fst (sync_handler (mailbox_collab [3, 2]) 0 demo_req))"
proof -
  have st: "fst (fst (sync_handler demo_collab 0 (demo_req\<lparr>sq_cursor := Some 1\<rparr>))) = 200"
    using demo_sync_cursor1 by (metis fst_conv)
  have none: "demo_req\<lparr>sq_cursor := Some 1, sq_cursor := None\<rparr> = demo_req"
    by (simp add: demo_req_def)
  have same: "imap_search (mailbox_collab [3, 2]) (sync_criteria 0 (demo_req\<lparr>sq_cursor := Some 1\<rparr>))
     = imap_search (mailbox_collab [3, 2]) (sync_criteria 0 demo_req)"
    by (simp add: demo_run_defs)
  from sync_search_by_cursor
    [where req = "demo_req\<lparr>sq_cursor := Some 1\<rparr>" and c = 1 and now = 0 and w = demo_collab]
  have a: "sync_criteria 0 (demo_req\<lparr>sq_cursor := Some 1\<rparr>) = UidFrom 2"
    and b: "searches (snd (sync_handler demo_collab 0 (demo_req\<lparr>sq_cursor := Some 1\<rparr>)))
      = [sync_criteria 0 (demo_req\<lparr>sq_cursor := Some 1\<rparr>)]"
    using st by simp_all
  from sync_search_by_cursor
    [where req = "demo_req\<lparr>sq_cursor := Some 1\<rparr>" and c = 1 and now = 0
      and w = "mailbox_collab [3, 2]", unfolded none] same
  have c: "fst (sync_handler (mailbox_collab [3, 2]) 0 (demo_req\<lparr>sq_cursor := Some 1\<rparr>))
     = raise_cursor (nullish (sq_cursor (demo_req\<lparr>sq_cursor := Some 1\<rparr>)) 0)
         (fst (sync_handler (mailbox_collab [3, 2]) 0 demo_req))"
    by blast
  from a b c same show ?thesis
    by (simp add: nullish_def)
qed

text \<open>
  The claim as it was stated fails twice. A request with cursor \<open>0\<close> has the field
  present and is answered by the backfill search. And on an empty mailbox, where both
  searches find nothing, a request with cursor \<open>5\<close> is answered with cursor \<open>5\<close> and one
  without cursor with cursor \<open>0\<close>: the search is not the only place where the two differ.
\<close>

theorem sync_cursor_present_counterexample:
  "sq_cursor (demo_req\<lparr>sq_cursor := Some 0\<rparr>) = Some 0 \<and>
   searches (snd (sync_handler demo_collab 1209600000 (demo_req\<lparr>sq_cursor := Some 0\<rparr>)))
     = [Since 0] \<and>
   searches (snd (sync_handler demo_collab 1209600000 (demo_req\<lparr>sq_cursor := Some 0\<rparr>)))
     \<noteq> [UidFrom (0 + 1)] \<and>
   fst (sync_handler (mailbox_collab []) 0 (demo_req\<lparr>sq_cursor := Some 5\<rparr>))
     = (200, SyncBody 5 []) \<and>
   fst (sync_handler (mailbox_collab []) 0 demo_req) = (200, SyncBody 0 [])"
  by (simp add: demo_run_defs)

text \<open>
  Claim C7 does not hold of the handler. Lines 131 to 167 build a message from every
  item that the fetch yields and never compare \<open>msg.uid\<close> with the cursor: whatever the
  search finds is delivered. On a mailbox with the UIDs 1 to 5 a first call without
  cursor returns all five messages and cursor 5. A second call with cursor 5, with no
  new mail, searches for \<open>"6:*"\<close>, which holds the last message, and returns the message
  with UID 5 again.
\<close>

theorem sync_delivers_all_fetched:
  assumes ok: "sync_handler w now req = ((200, SyncBody cur msgs), t)"
    and found: "imap_search w (sync_criteria now req) = Inr found"
    and items: "imap_fetch w (select_uids found (nullish (sq_limit req) 50)) = Inr items"
  shows "list_all2 (produced w now) items msgs"
proof -
  from sync_handler_ok [OF ok] found items
  have "sync_loop w now items (init_max (sq_cursor req)) [] = Inr (cur, msgs)"
    by auto
  from sync_loop_result [OF this] show ?thesis
    by auto
qed

theorem sync_redelivers_last_uid:
  "fst (sync_handler (rfc_collab [1, 2, 3, 4, 5]) 0 demo_req)
     = (200, SyncBody 5 [demo_message 1, demo_message 2, demo_message 3, demo_message 4,
          demo_message 5]) \<and>
   fst (sync_handler (rfc_collab [1, 2, 3, 4, 5]) 0 (demo_req\<lparr>sq_cursor := Some 5\<rparr>))
     = (200, SyncBody 5 [demo_message 5]) \<and>
   imap_fetch (rfc_collab [1, 2, 3, 4, 5])
     (select_uids [5] (nullish (sq_limit (demo_req\<lparr>sq_cursor := Some 5\<rparr>)) 50))
     = Inr [demo_item 5] \<and>
   list_all2 (produced (rfc_collab [1, 2, 3, 4, 5]) 0) [demo_item 5] [demo_message 5] \<and>
   set (map f_uid (map demo_item [1, 2, 3, 4, 5])) \<inter> set (map f_uid [demo_item 5]) = {5}"
proof -
  have first: "fst (sync_handler (rfc_collab [1, 2, 3, 4, 5]) 0 demo_req)
     = (200, SyncBody 5 [demo_message 1, demo_message 2, demo_message 3, demo_message 4,
          demo_message 5])"
    by (simp add: demo_run_defs rfc_collab_def)
  have found: "imap_search (rfc_collab [1, 2, 3, 4, 5])
      (sync_criteria 0 (demo_req\<lparr>sq_cursor := Some 5\<rparr>)) = Inr [5]"
    by (simp add: demo_run_defs rfc_collab_def)
  have items: "imap_fetch (rfc_collab [1, 2, 3, 4, 5])
      (select_uids [5] (nullish (sq_limit (demo_req\<lparr>sq_cursor := Some 5\<rparr>)) 50))
      = Inr [demo_item 5]"
    by (simp add: demo_run_defs rfc_collab_def)
  have "list_all2 (produced (rfc_collab [1, 2, 3, 4, 5]) 0) [demo_item 5] [demo_message 5]"
    by (rule sync_delivers_all_fetched [OF rfc_sync_again found items])
  moreover have "set (map f_uid (map demo_item [1, 2, 3, 4, 5])) \<inter> set (map f_uid [demo_item 5])
      = {5}"
    by (simp add: demo_item_def)
  moreover have "fst (sync_handler (rfc_collab [1, 2, 3, 4, 5]) 0 (demo_req\<lparr>sq_cursor := Some 5\<rparr>))
     = (200, SyncBody 5 [demo_message 5])"
    using rfc_sync_again by (metis fst_conv)
  ultimately show ?thesis
    using first items by blast
qed

text \<open>
  Claim C8. Every message of a sync answer has a snippet of at most 240 code units with
  no two adjacent whitespace code units, and a text body and an HTML body of at most
  20000 code units each.
\<close>

theorem sync_messages_bounded:
  assumes "sync_handler w now req = ((200, SyncBody cur msgs), t)"
  shows "\<forall>m \<in> set msgs.
           length (snippet m) \<le> 240 \<and> \<not> ws_run (snippet m) \<and>
           length (bodyText m) \<le> 20000 \<and> length (bodyHtml m) \<le> 20000"
proof
  fix m assume m: "m \<in> set msgs"
  from sync_handler_ok [OF assms] obtain items where
    "sync_loop w now items (init_max (sq_cursor req)) [] = Inr (cur, msgs)"
    by blast
  from sync_loop_result [OF this] have "list_all2 (produced w now) items msgs"
    by auto
  with m obtain item where "produced w now item m"
    by (auto simp: in_set_conv_nth list_all2_conv_all_nth)
  then obtain p where "m = normalize (sha256_hex w) now item p"
    by (auto simp: produced_def split: sum.splits)
  then show "length (snippet m) \<le> 240 \<and> \<not> ws_run (snippet m) \<and>
      length (bodyText m) \<le> 20000 \<and> length (bodyHtml m) \<le> 20000"
    using normalize_bounded by simp
qed

theorem sync_messages_bounded_witness:
  "length (snippet (demo_message 2)) \<le> 240 \<and> \<not> ws_run (snippet (demo_message 2)) \<and>
   length (bodyText (demo_message 2)) \<le> 20000 \<and> length (bodyHtml (demo_message 2)) \<le> 20000"
  using sync_messages_bounded [OF demo_sync_cursor1] by simp

text \<open>
  Claim C10. A sync request without a truthy \<open>email\<close> or \<open>password\<close> is answered with
  status 400 and an error body, and the handler asks nothing of the network: its trace
  is empty.
\<close>

theorem sync_missing_credentials:
  assumes "\<not> truthy (sq_email req) \<or> \<not> truthy (sq_password req)"
  shows "sync_handler w now req = ((400, ErrorBody (js ''Missing email/password'')), [])"
  using assms by (auto simp: sync_handler_def)

theorem sync_missing_credentials_witness:
  "\<not> truthy (sq_password (demo_req\<lparr>sq_password := None\<rparr>)) \<and>
   sync_handler demo_collab 0 (demo_req\<lparr>sq_password := None\<rparr>)
     = ((400, ErrorBody (js ''Missing email/password'')), [])"
proof -
  have h: "\<not> truthy (sq_email (demo_req\<lparr>sq_password := None\<rparr>))
      \<or> \<not> truthy (sq_password (demo_req\<lparr>sq_password := None\<rparr>))"
    by simp
  have "sync_handler demo_collab 0 (demo_req\<lparr>sq_password := None\<rparr>)
      = ((400, ErrorBody (js ''Missing email/password'')), [])"
    using h by (rule sync_missing_credentials)
  then show ?thesis by simp
qed

section \<open>Claims about the thread key\<close>

text \<open>
  Claim C5, as amended. The thread key of a message is \<open>threadKey\<close> of its references,
  inReplyTo, messageId, subject and fromEmail, and of nothing else, so equal tuples
  give equal keys. For two tuples that differ only in fromEmail, both without unpaired
  surrogates, the bytes that are hashed differ, so that their keys differ unless the
  digest has the same value on these two different inputs.
\<close>

theorem thread_key_deterministic:
  "externalThreadKey (normalize sha now msg p)
     = threadKey sha (references (normalize sha now msg p)) (inReplyTo (normalize sha now msg p))
         (messageId (normalize sha now msg p)) (subject (normalize sha now msg p))
         (fromEmail (normalize sha now msg p)) \<and>
   (well_formed f1 \<and> well_formed f2 \<and> f1 \<noteq> f2 \<longrightarrow>
      utf8 (thread_key_input rs irt mid subj f1) \<noteq> utf8 (thread_key_input rs irt mid subj f2) \<and>
      (threadKey sha rs irt mid subj f1 \<noteq> threadKey sha rs irt mid subj f2 \<or>
       digest_collision sha (utf8 (thread_key_input rs irt mid subj f1))
         (utf8 (thread_key_input rs irt mid subj f2))))"
proof (intro conjI impI)
  show "externalThreadKey (normalize sha now msg p)
     = threadKey sha (references (normalize sha now msg p)) (inReplyTo (normalize sha now msg p))
         (messageId (normalize sha now msg p)) (subject (normalize sha now msg p))
         (fromEmail (normalize sha now msg p))"
    by (simp add: normalize_def Let_def)
next
  assume a: "well_formed f1 \<and> well_formed f2 \<and> f1 \<noteq> f2"
  then show bytes: "utf8 (thread_key_input rs irt mid subj f1)
      \<noteq> utf8 (thread_key_input rs irt mid subj f2)"
    using thread_key_bytes_inj by blast
  then show "threadKey sha rs irt mid subj f1 \<noteq> threadKey sha rs irt mid subj f2 \<or>
      digest_collision sha (utf8 (thread_key_input rs irt mid subj f1))
        (utf8 (thread_key_input rs irt mid subj f2))"
    by (auto simp: threadKey_def digest_collision_def)
qed

theorem thread_key_deterministic_witness:
  "well_formed (js ''a@b.c'') \<and> well_formed (js ''d@b.c'') \<and> js ''a@b.c'' \<noteq> js ''d@b.c'' \<and>
   utf8 (thread_key_input [] [] [] (js ''Hi'') (js ''a@b.c''))
     \<noteq> utf8 (thread_key_input [] [] [] (js ''Hi'') (js ''d@b.c''))"
proof -
  have w1: "well_formed (js ''a@b.c'')" and w2: "well_formed (js ''d@b.c'')"
    by (simp_all add: js_def is_high_def is_low_def)
  have d: "js ''a@b.c'' \<noteq> js ''d@b.c''"
    by (simp add: js_def)
  from thread_key_deterministic
    [where sha = demo_digest and now = 0 and msg = "demo_item 1" and p = demo_parsed
      and ?f1.0 = "js ''a@b.c''" and ?f2.0 = "js ''d@b.c''" and rs = "[]" and irt = "[]"
      and mid = "[]" and subj = "js ''Hi''"]
    w1 w2 d
  have "utf8 (thread_key_input [] [] [] (js ''Hi'') (js ''a@b.c''))
     \<noteq> utf8 (thread_key_input [] [] [] (js ''Hi'') (js ''d@b.c''))"
    by blast
  with w1 w2 d show ?thesis by blast
qed

text \<open>
  The claim as it was stated gives different keys to any two values of fromEmail. The
  two strings below are one unpaired surrogate each and differ; both are hashed as
  U+FFFD, so with the same threading headers the hashed bytes are the same, and so is
  the key, whatever the digest.
\<close>

theorem thread_key_surrogate_counterexample:
  "[0xD800] \<noteq> [0xD801 :: 16 word] \<and>
   utf8 (thread_key_input [] [] [] (js ''Hi'') [0xD800])
     = utf8 (thread_key_input [] [] [] (js ''Hi'') [0xD801]) \<and>
   threadKey (sha256_hex demo_collab) [] [] [] (js ''Hi'') [0xD800]
     = threadKey (sha256_hex demo_collab) [] [] [] (js ''Hi'') [0xD801]"
  by (simp add: threadKey_def lone_surrogates_same_bytes)

section \<open>Claims about the delivery hosts\<close>

text \<open>
  Claim C3, as amended. For a request with email and password, the outbound check
  first tries the primary delivery host and, when that fails, tries the secondary host
  once. The answer reports the first attempt when it succeeded, else the second when
  it succeeded, else the failure of the first attempt.
\<close>

theorem verify_outbound_failover:
  assumes "truthy (tq_email req)" and "truthy (tq_password req)"
  shows "let first = testSmtp w (or_str (tq_email req) []) (or_str (tq_password req) [])
                       (tq_advanced req) None;
             second = testSmtp w (or_str (tq_email req) []) (or_str (tq_password req) [])
                       (tq_advanced req) (Some secondary_host)
         in sr_smtpHost (fst first) = primary_host \<and>
            sr_smtpHost (fst second) = secondary_host \<and>
            reported_smtp (fst (test_handler w req))
              = Some (if sr_ok (fst first) then fst first
                      else if sr_ok (fst second) then fst second else fst first) \<and>
            smtp_hosts (snd (test_handler w req))
              = (if sr_ok (fst first) then [primary_host] else [primary_host, secondary_host])"
  using assms
  by (simp add: test_handler_def Let_def split_beta smtp_hosts_append smtp_hosts_testImap
      testSmtp_host primary_host_def secondary_host_def)

theorem verify_outbound_failover_witness:
  "truthy (tq_email demo_test_req) \<and> truthy (tq_password demo_test_req) \<and>
   reported_smtp (fst (test_handler down_collab demo_test_req))
     = Some \<lparr>sr_ok = False, sr_error = Some (js ''primary down''), sr_smtpHost = primary_host\<rparr> \<and>
   smtp_hosts (snd (test_handler down_collab demo_test_req)) = [primary_host, secondary_host]"
proof -
  have e: "truthy (tq_email demo_test_req)" and p: "truthy (tq_password demo_test_req)"
    by (simp_all add: demo_test_req_def js_def)
  show ?thesis
    using verify_outbound_failover [OF e p, of down_collab] e p
    by (simp add: Let_def testSmtp_def cfg_def nullish_def adv_or_empty_def down_collab_def
        demo_collab_def mailbox_collab_def demo_test_req_def primary_host_def
        secondary_host_def or_str_def js_def)
qed

text \<open>
  The claim as it was stated names the failure of the second attempt. When both hosts
  refuse, each with its own message, the answer is not the result of the second
  attempt: line 93 replaces \<open>smtp\<close> only by a fallback that succeeded.
\<close>

theorem verify_second_failure_counterexample:
  "\<not> sr_ok (fst (testSmtp down_collab (js ''u@b.c'') (js ''pw'') None None)) \<and>
   \<not> sr_ok (fst (testSmtp down_collab (js ''u@b.c'') (js ''pw'') None (Some secondary_host))) \<and>
   reported_smtp (fst (test_handler down_collab demo_test_req))
     \<noteq> Some (fst (testSmtp down_collab (js ''u@b.c'') (js ''pw'') None (Some secondary_host)))"
  by (simp add: test_handler_def testImap_def testSmtp_def cfg_def nullish_def adv_or_empty_def
      down_collab_def demo_collab_def mailbox_collab_def demo_test_req_def secondary_host_def
      or_str_def js_def Let_def)

text \<open>
  Claim C6. A send request that passes the check of its fields is attempted at the
  primary host; when that attempt fails, the same mail with the same port, security and
  login is attempted once at the secondary host, and at no other time. The answer is
  200 with the host that accepted, or 500 with the error of the second attempt; the
  number of accepted attempts is one in the first case and none in the second.
\<close>

theorem send_failover:
  assumes "send_valid req"
  shows "let p1 = send_params req primary_host;
             p2 = send_params req secondary_host;
             m = send_mail req
         in sp_host p1 = primary_host \<and>
            p2 = p1\<lparr>sp_host := secondary_host\<rparr> \<and>
            snd (send_handler w req)
              = (case smtp_send w p1 m of
                   Inr mid \<Rightarrow> [SmtpSend p1 m]
                 | Inl e \<Rightarrow> [SmtpSend p1 m, SmtpSend p2 m]) \<and>
            fst (send_handler w req)
              = (case smtp_send w p1 m of
                   Inr mid \<Rightarrow> (200, SendBody mid primary_host)
                 | Inl e1 \<Rightarrow>
                     (case smtp_send w p2 m of
                        Inr mid \<Rightarrow> (200, SendBody mid secondary_host)
                      | Inl e2 \<Rightarrow> (500, ErrorBody e2))) \<and>
            length (filter (accepted w) (snd (send_handler w req)))
              = (if fst (fst (send_handler w req)) = 200 then 1 else 0)"
proof -
  have "send_params req secondary_host = (send_params req primary_host)\<lparr>sp_host := secondary_host\<rparr>"
    by (rule send_params_host)
  then show ?thesis
    by (simp add: send_handler_valid [OF assms] trySend_def Let_def send_params_host(1)
        primary_host_def [symmetric] secondary_host_def [symmetric] split: sum.splits)
qed

theorem send_failover_witness:
  "send_valid demo_send_req \<and>
   fst (send_handler primary_down_collab demo_send_req)
     = (200, SendBody (js ''id'') secondary_host) \<and>
   smtp_hosts (snd (send_handler primary_down_collab demo_send_req))
     = [primary_host, secondary_host] \<and>
   length (filter (accepted primary_down_collab) (snd (send_handler primary_down_collab demo_send_req)))
     = 1"
proof -
  have v: "send_valid demo_send_req"
    by (simp add: send_valid_def demo_send_req_def js_def)
  have p: "smtp_send primary_down_collab (send_params demo_send_req primary_host)
      (send_mail demo_send_req) = Inl (js ''primary down'')"
    by (simp add: primary_down_collab_def send_params_host(1) primary_host_def)
  have s: "smtp_send primary_down_collab (send_params demo_send_req secondary_host)
      (send_mail demo_send_req) = Inr (js ''id'')"
    by (simp add: primary_down_collab_def demo_collab_def mailbox_collab_def
        send_params_host(1) secondary_host_def js_def)
  from send_failover [OF v, of primary_down_collab] p s
  have "snd (send_handler primary_down_collab demo_send_req)
      = [SmtpSend (send_params demo_send_req primary_host) (send_mail demo_send_req),
         SmtpSend (send_params demo_send_req secondary_host) (send_mail demo_send_req)]"
    and "fst (send_handler primary_down_collab demo_send_req)
      = (200, SendBody (js ''id'') secondary_host)"
    and "length (filter (accepted primary_down_collab)
           (snd (send_handler primary_down_collab demo_send_req))) = 1"
    by (simp_all add: Let_def)
  with v show ?thesis
    by (simp add: send_params_host(1))
qed

text \<open>
  Claim C9. The \<open>smtpHost\<close> of the \<open>advanced\<close> overrides has no effect on \<open>POST /test\<close> and
  \<open>POST /send\<close>: two requests that differ in it only get the same answer and the same
  trace. The outbound attempts of either handler go to the primary host first and
  then, if at all, to the secondary host; there is none exactly when the request fails
  the check of its fields.
\<close>

theorem smtp_host_override_ignored:
  "test_handler w (treq\<lparr>tq_advanced := Some (adv\<lparr>ov_smtpHost := h\<rparr>)\<rparr>)
     = test_handler w (treq\<lparr>tq_advanced := Some adv\<rparr>) \<and>
   send_handler w (sreq\<lparr>nq_advanced := Some (adv\<lparr>ov_smtpHost := h\<rparr>)\<rparr>)
     = send_handler w (sreq\<lparr>nq_advanced := Some adv\<rparr>) \<and>
   smtp_hosts (snd (test_handler w treq))
     \<in> {[], [primary_host], [primary_host, secondary_host]} \<and>
   (smtp_hosts (snd (test_handler w treq)) = [])
     = (\<not> (truthy (tq_email treq) \<and> truthy (tq_password treq))) \<and>
   smtp_hosts (snd (send_handler w sreq))
     \<in> {[], [primary_host], [primary_host, secondary_host]} \<and>
   (smtp_hosts (snd (send_handler w sreq)) = []) = (\<not> send_valid sreq)"
proof (intro conjI)
  show "test_handler w (treq\<lparr>tq_advanced := Some (adv\<lparr>ov_smtpHost := h\<rparr>)\<rparr>)
     = test_handler w (treq\<lparr>tq_advanced := Some adv\<rparr>)"
    by (simp add: test_handler_def Let_def split_beta testImap_ignores_smtpHost
        testSmtp_ignores_smtpHost)
  show "send_handler w (sreq\<lparr>nq_advanced := Some (adv\<lparr>ov_smtpHost := h\<rparr>)\<rparr>)
     = send_handler w (sreq\<lparr>nq_advanced := Some adv\<rparr>)"
    by (simp add: send_handler_def trySend_def Let_def send_params_ignores_smtpHost send_mail_def
        cong del: sum.case_cong_weak)
  show "smtp_hosts (snd (test_handler w treq))
     \<in> {[], [primary_host], [primary_host, secondary_host]}"
    by (simp add: test_handler_def Let_def split_beta smtp_hosts_append smtp_hosts_testImap
        testSmtp_host primary_host_def secondary_host_def)
  show "(smtp_hosts (snd (test_handler w treq)) = [])
     = (\<not> (truthy (tq_email treq) \<and> truthy (tq_password treq)))"
    by (simp add: test_handler_def Let_def split_beta smtp_hosts_append smtp_hosts_testImap
        testSmtp_host)
  show "smtp_hosts (snd (send_handler w sreq))
     \<in> {[], [primary_host], [primary_host, secondary_host]}"
    by (cases "send_valid sreq")
      (auto simp: send_handler_valid send_handler_def send_valid_def trySend_def Let_def
        send_params_host(1) primary_host_def secondary_host_def split: sum.splits)
  show "(smtp_hosts (snd (send_handler w sreq)) = []) = (\<not> send_valid sreq)"
    by (cases "send_valid sreq")
      (auto simp: send_handler_valid send_handler_def send_valid_def trySend_def Let_def
        split: sum.splits)
qed

theorem smtp_host_override_ignored_witness:
  "send_handler primary_down_collab demo_send_req
     = send_handler primary_down_collab (demo_send_req\<lparr>nq_advanced := Some demo_overrides\<rparr>) \<and>
   test_handler down_collab
       (demo_test_req\<lparr>tq_advanced := Some (demo_overrides\<lparr>ov_smtpHost := Some (js ''relay.example'')\<rparr>)\<rparr>)
     = test_handler down_collab (demo_test_req\<lparr>tq_advanced := Some demo_overrides\<rparr>) \<and>
   smtp_hosts (snd (send_handler primary_down_collab demo_send_req)) \<noteq> [] \<and>
   smtp_hosts (snd (send_handler primary_down_collab demo_send_req))
     \<in> {[], [primary_host], [primary_host, secondary_host]}"
proof -
  have v: "send_valid demo_send_req"
    by (simp add: send_valid_def demo_send_req_def js_def)
  have r: "demo_send_req\<lparr>nq_advanced :=
      Some (demo_overrides\<lparr>ov_smtpHost := Some (js ''relay.example'')\<rparr>)\<rparr> = demo_send_req"
    by (simp add: demo_send_req_def)
  have send_part:
    "send_handler primary_down_collab demo_send_req
       = send_handler primary_down_collab (demo_send_req\<lparr>nq_advanced := Some demo_overrides\<rparr>) \<and>
     smtp_hosts (snd (send_handler primary_down_collab demo_send_req))
       \<in> {[], [primary_host], [primary_host, secondary_host]} \<and>
     (smtp_hosts (snd (send_handler primary_down_collab demo_send_req)) = [])
       = (\<not> send_valid demo_send_req)"
    using smtp_host_override_ignored
      [where w = primary_down_collab and sreq = demo_send_req and adv = demo_overrides
        and h = "Some (js ''relay.example'')" and treq = demo_test_req, unfolded r]
    by blast
  have test_part:
    "test_handler down_collab
       (demo_test_req\<lparr>tq_advanced := Some (demo_overrides\<lparr>ov_smtpHost := Some (js ''relay.example'')\<rparr>)\<rparr>)
     = test_handler down_collab (demo_test_req\<lparr>tq_advanced := Some demo_overrides\<rparr>)"
    using smtp_host_override_ignored
      [where w = down_collab and treq = demo_test_req and adv = demo_overrides
        and h = "Some (js ''relay.example'')" and sreq = demo_send_req]
    by blast
  from send_part test_part v show ?thesis by blast
qed

end
